theory Spec2Isabelle
  imports Complex_Main "HOL-Library.Char_ord" "HOL-Library.List_Lexorder"
begin

section \<open>Python values and errors\<close>

text \<open>
  The exceptions that the modelled code can raise. A computation that may raise returns
  \<open>error + 'a\<close>, with \<open>Inl\<close> for the exception.
\<close>

datatype error =
    ValueError | KeyError | TypeError | IndexError | RuntimeError | ZeroDivisionError
  | FileNotFoundError | OutOfRange | ConfigurationError | ImageError

text \<open>
  A value \<open>item\<close> used as a subscript is an integer, a string, or an object that
  hashes and compares equal to a string and defines \<open>__index__\<close> (an instance of a
  subclass of \<open>str\<close> with that method): \<open>IdxObj k i\<close> is equal to the string \<open>k\<close> and
  its \<open>__index__\<close> returns \<open>i\<close>. The value stored under an
  image identifier is either a list of caption strings (the layout the comment in
  \<open>__init__\<close> describes) or a dict from field names to strings (the layout
  \<open>to_dict(orient='index')\<close> produces); a dict keeps its keys in insertion order.
\<close>

datatype py_index = IdxInt int | IdxStr string | IdxObj string int

datatype captions_val = CaptionList "string list" | Record "(string \<times> string) list"

text \<open>\<open>for caption in captions\<close>: a list yields its elements, a dict yields its keys.\<close>

fun py_iter :: "captions_val \<Rightarrow> string list" where
  "py_iter (CaptionList cs) = cs"
| "py_iter (Record kvs) = map fst kvs"

text \<open>\<open>xs[:k]\<close>: a negative bound counts from the end.\<close>

definition py_slice_to :: "'a list \<Rightarrow> int \<Rightarrow> 'a list" where
  "py_slice_to xs k = (if k < 0 then take (nat (int (length xs) + k)) xs else take (nat k) xs)"

text \<open>\<open>xs[i]\<close> on a Python list: a string subscript is a TypeError, an integer out of
  range an IndexError, a negative integer counts from the end; an object that defines
  \<open>__index__\<close> is used through the integer it returns.\<close>

definition list_at :: "'a list \<Rightarrow> int \<Rightarrow> error + 'a" where
  "list_at xs i =
     (if 0 \<le> i then (if i < int (length xs) then Inr (xs ! nat i) else Inl IndexError)
      else if - int (length xs) \<le> i then Inr (xs ! nat (int (length xs) + i))
      else Inl IndexError)"

fun list_getitem :: "'a list \<Rightarrow> py_index \<Rightarrow> error + 'a" where
  "list_getitem xs (IdxStr s) = Inl TypeError"
| "list_getitem xs (IdxInt i) = list_at xs i"
| "list_getitem xs (IdxObj k i) = list_at xs i"

text \<open>\<open>d[k]\<close> on a dict whose keys are strings: an integer is absent, an object equal
  to a string finds what the string finds.\<close>

fun dict_getitem :: "(string \<times> 'v) list \<Rightarrow> py_index \<Rightarrow> error + 'v" where
  "dict_getitem d (IdxInt i) = Inl KeyError"
| "dict_getitem d (IdxStr k) = (case map_of d k of None \<Rightarrow> Inl KeyError | Some v \<Rightarrow> Inr v)"
| "dict_getitem d (IdxObj k i) = (case map_of d k of None \<Rightarrow> Inl KeyError | Some v \<Rightarrow> Inr v)"

text \<open>\<open>v[field]\<close> on a stored value: a list subscripted with a string is a TypeError.\<close>

fun field_getitem :: "captions_val \<Rightarrow> string \<Rightarrow> error + string" where
  "field_getitem (CaptionList cs) f = Inl TypeError"
| "field_getitem (Record kvs) f = dict_getitem kvs (IdxStr f)"

section \<open>Strings\<close>

text \<open>
  A \<open>char\<close> stands for a code point below 256. \<open>is_space\<close> is \<open>str.isspace\<close> on those:
  tab to carriage return, the four separators 28 to 31, space, U+0085 and U+00A0.
\<close>

definition is_space :: "char \<Rightarrow> bool" where
  "is_space c = (let n = (of_char c :: nat) in
     (9 \<le> n \<and> n \<le> 13) \<or> (28 \<le> n \<and> n \<le> 32) \<or> n = 133 \<or> n = 160)"

text \<open>\<open>s.strip()\<close>.\<close>

definition py_strip :: "string \<Rightarrow> string" where
  "py_strip s = rev (dropWhile is_space (rev (dropWhile is_space s)))"

text \<open>\<open>s.split(c)\<close> for a one-character separator: never empty, keeps empty fields.\<close>

fun py_split :: "char \<Rightarrow> string \<Rightarrow> string list" where
  "py_split c [] = [[]]"
| "py_split c (x # xs) =
     (if x = c then [] # py_split c xs
      else (case py_split c xs of [] \<Rightarrow> [[x]] | w # ws \<Rightarrow> (x # w) # ws))"

text \<open>\<open>s.split()\<close>, the tokenizer of the notebook's last cell (\<open>lambda x: x.split()\<close>):
  maximal runs of non-space characters. \<open>cur\<close> is the run being read, reversed.\<close>

fun split_ws_go :: "string \<Rightarrow> string \<Rightarrow> string list" where
  "split_ws_go cur [] = (if cur = [] then [] else [rev cur])"
| "split_ws_go cur (x # xs) =
     (if is_space x then (if cur = [] then split_ws_go [] xs else rev cur # split_ws_go [] xs)
      else split_ws_go (x # cur) xs)"

definition split_ws :: "string \<Rightarrow> string list" where
  "split_ws s = split_ws_go [] s"

section \<open>Counter and vocabulary\<close>

text \<open>
  \<open>collections.Counter\<close>: a dict from token to count, keys in order of first insertion.
  \<open>counter.update(tokens)\<close> adds one to the count of each token in turn.
\<close>

type_synonym counter = "(string \<times> nat) list"

fun counter_incr :: "counter \<Rightarrow> string \<Rightarrow> counter" where
  "counter_incr [] t = [(t, 1)]"
| "counter_incr ((k, n) # c) t =
     (if k = t then (k, Suc n) # c else (k, n) # counter_incr c t)"

definition counter_update :: "counter \<Rightarrow> string list \<Rightarrow> counter" where
  "counter_update c toks = fold (\<lambda>t c. counter_incr c t) toks c"

text \<open>
  Modelled from the spec: \<open>torchtext.vocab.Vocab\<close>, the class of the external library
  torchtext that \<open>__preprocess_caption__\<close> instantiates; its code is not part of the
  repository. Following the vocabulary of the specification (sections 3 and 4.1): ids are
  dense, the specials come first in the order given, then every distinct observed token
  that is not a special, by descending frequency with ties broken by the token string;
  \<open>stoi\<close> is the reverse dict of \<open>itos\<close>; looking a token up never fails and falls back to
  the id of \<open><unk>\<close>, the first special, which is 0; looking an id up fails with \<open>OutOfRange\<close> outside the assigned
  range. The frequency threshold is the library's default, 1.
\<close>

record vocab =
  itos :: "string list"
  stoi :: "string \<rightharpoonup> nat"
  unk_index :: nat

definition specials :: "string list" where
  "specials = [''<unk>'', ''<pad>'', ''<bos>'', ''<eos>'']"

definition words_and_frequencies :: "string list \<Rightarrow> counter \<Rightarrow> counter" where
  "words_and_frequencies sp c =
     sort_key (\<lambda>(w, f). - int f) (sort_key fst (filter (\<lambda>(w, f). w \<notin> set sp) c))"

definition reverse_dict :: "string list \<Rightarrow> (string \<rightharpoonup> nat)" where
  "reverse_dict ws = fold (\<lambda>(i, tok) m. m(tok \<mapsto> i)) (enumerate 0 ws) Map.empty"

definition Vocab :: "counter \<Rightarrow> string list \<Rightarrow> vocab" where
  "Vocab c sp =
     (let ws = sp @ map fst (takeWhile (\<lambda>(w, f). 1 \<le> f) (words_and_frequencies sp c))
      in \<lparr> itos = ws, stoi = reverse_dict ws, unk_index = 0 \<rparr>)"

text \<open>\<open>vocab[token]\<close>.\<close>

definition vocab_getitem :: "vocab \<Rightarrow> string \<Rightarrow> nat" where
  "vocab_getitem v t = (case stoi v t of Some i \<Rightarrow> i | None \<Rightarrow> unk_index v)"

text \<open>The lookup from an id back to its token.\<close>

definition id_to_token :: "vocab \<Rightarrow> int \<Rightarrow> error + string" where
  "id_to_token v i =
     (if 0 \<le> i \<and> i < int (length (itos v)) then Inr (itos v ! nat i) else Inl OutOfRange)"

section \<open>Caption encoding: \<open>LoadFlickerData.__preprocess_caption__\<close>\<close>

text \<open>\<open>torch.ones(n, dtype=torch.bool)\<close>: a negative size raises.\<close>

definition torch_ones :: "int \<Rightarrow> error + bool list" where
  "torch_ones n = (if n < 0 then Inl RuntimeError else Inr (replicate (nat n) True))"

text \<open>\<open>mask[k:] = False\<close>.\<close>

definition mask_clear_from :: "bool list \<Rightarrow> nat \<Rightarrow> bool list" where
  "mask_clear_from msk k = take k msk @ replicate (length msk - k) False"

text \<open>
  The body of the second loop of \<open>__preprocess_caption__\<close>, for one caption: the ids
  of the tokens between \<open><bos>\<close> and \<open><eos>\<close>, padded or truncated to
  \<open>max_seq_length\<close>, and the attention mask.
\<close>

definition encode_caption ::
  "(string \<Rightarrow> string list) \<Rightarrow> vocab \<Rightarrow> int \<Rightarrow> string \<Rightarrow> error + (nat list \<times> bool list)" where
  "encode_caption tokenizer v max_seq_length caption =
     (let tokens = map (vocab_getitem v) (tokenizer caption);
          tokens = [vocab_getitem v ''<bos>''] @ tokens @ [vocab_getitem v ''<eos>'']
      in case torch_ones max_seq_length of
           Inl e \<Rightarrow> Inl e
         | Inr msk \<Rightarrow>
             if int (length tokens) \<le> max_seq_length then
               let pad_starts = length tokens;
                   tokens = tokens @ replicate (nat (max_seq_length - int (length tokens)))
                                       (vocab_getitem v ''<pad>'')
               in Inr (tokens, mask_clear_from msk pad_starts)
             else
               Inr (py_slice_to tokens (max_seq_length - 1) @ [vocab_getitem v ''<eos>''], msk))"

text \<open>The captions that the two loops visit, in order.\<close>

definition all_captions :: "(string \<times> captions_val) list \<Rightarrow> string list" where
  "all_captions image_data = concat (map (\<lambda>(image_id, captions). py_iter captions) image_data)"

text \<open>The first loop: count the tokens of every caption.\<close>

definition count_tokens :: "(string \<Rightarrow> string list) \<Rightarrow> string list \<Rightarrow> counter" where
  "count_tokens tokenizer caps = fold (\<lambda>caption c. counter_update c (tokenizer caption)) caps []"

text \<open>The second loop: encode every caption, stopping at the first exception.\<close>

fun encode_all ::
  "(string \<Rightarrow> string list) \<Rightarrow> vocab \<Rightarrow> int \<Rightarrow> string list \<Rightarrow>
     error + (nat list list \<times> bool list list)" where
  "encode_all tokenizer v n [] = Inr ([], [])"
| "encode_all tokenizer v n (caption # rest) =
     (case encode_caption tokenizer v n caption of
        Inl e \<Rightarrow> Inl e
      | Inr (tokens, msk) \<Rightarrow>
          (case encode_all tokenizer v n rest of
             Inl e \<Rightarrow> Inl e
           | Inr (tokens_arrays, attention_masks) \<Rightarrow>
               Inr (tokens # tokens_arrays, msk # attention_masks)))"

definition preprocess_caption ::
  "(string \<Rightarrow> string list) \<Rightarrow> int \<Rightarrow> (string \<times> captions_val) list \<Rightarrow>
     error + (vocab \<times> nat list list \<times> bool list list)" where
  "preprocess_caption tokenizer max_seq_length image_data =
     (let counter = count_tokens tokenizer (all_captions image_data);
          v = Vocab counter specials
      in case encode_all tokenizer v max_seq_length (all_captions image_data) of
           Inl e \<Rightarrow> Inl e
         | Inr (tokens_arrays, attention_masks) \<Rightarrow> Inr (v, tokens_arrays, attention_masks))"

text \<open>
  \<open>self.tokenizer\<close> is a callable that the caller supplies, and a callable may have
  effects of its own, such as counting its calls. With \<open>'s\<close> the state such a callable
  works on, it is a function from the caption and the state to the tokens and the new
  state, and the two loops of \<open>__preprocess_caption__\<close> thread that state through their
  calls of it, in the order in which the source makes them. \<open>effectful tok step\<close> is the
  callable that returns \<open>tok caption\<close> and changes its state by \<open>step caption\<close>.
\<close>

definition effectful ::
  "(string \<Rightarrow> string list) \<Rightarrow> (string \<Rightarrow> 's \<Rightarrow> 's) \<Rightarrow> string \<Rightarrow> 's \<Rightarrow> string list \<times> 's" where
  "effectful tok step caption s = (tok caption, step caption s)"

fun count_loop ::
  "(string \<Rightarrow> 's \<Rightarrow> string list \<times> 's) \<Rightarrow> string list \<Rightarrow> counter \<Rightarrow> 's \<Rightarrow> counter \<times> 's" where
  "count_loop tokenizer [] counter s = (counter, s)"
| "count_loop tokenizer (caption # rest) counter s =
     (case tokenizer caption s of
        (toks, s') \<Rightarrow> count_loop tokenizer rest (counter_update counter toks) s')"

text \<open>
  In the second loop the tokens of a caption come from the call of the tokenizer, and
  the rest of the body is \<open>encode_caption\<close> on those tokens.
\<close>

fun encode_loop ::
  "(string \<Rightarrow> 's \<Rightarrow> string list \<times> 's) \<Rightarrow> vocab \<Rightarrow> int \<Rightarrow> string list \<Rightarrow> 's \<Rightarrow>
     (error + (nat list list \<times> bool list list)) \<times> 's" where
  "encode_loop tokenizer v n [] s = (Inr ([], []), s)"
| "encode_loop tokenizer v n (caption # rest) s =
     (case tokenizer caption s of
        (toks, s') \<Rightarrow>
          (case encode_caption (\<lambda>c. toks) v n caption of
             Inl e \<Rightarrow> (Inl e, s')
           | Inr (tokens, msk) \<Rightarrow>
               (case encode_loop tokenizer v n rest s' of
                  (Inl e, s'') \<Rightarrow> (Inl e, s'')
                | (Inr (tokens_arrays, attention_masks), s'') \<Rightarrow>
                    (Inr (tokens # tokens_arrays, msk # attention_masks), s''))))"

definition preprocess_caption_run ::
  "(string \<Rightarrow> 's \<Rightarrow> string list \<times> 's) \<Rightarrow> int \<Rightarrow> (string \<times> captions_val) list \<Rightarrow> 's \<Rightarrow>
     (error + (vocab \<times> nat list list \<times> bool list list)) \<times> 's" where
  "preprocess_caption_run tokenizer max_seq_length image_data s =
     (case count_loop tokenizer (all_captions image_data) [] s of
        (counter, s') \<Rightarrow>
          (case encode_loop tokenizer (Vocab counter specials) max_seq_length
                  (all_captions image_data) s' of
             (Inl e, s'') \<Rightarrow> (Inl e, s'')
           | (Inr (tokens_arrays, attention_masks), s'') \<Rightarrow>
               (Inr (Vocab counter specials, tokens_arrays, attention_masks), s'')))"

section \<open>Loading the corpus: \<open>LoadFlickerData.load_data\<close>\<close>

text \<open>
  One line of an annotation file: \<open>image_id, caption = line.strip().split('\t')\<close>,
  which raises ValueError unless the line has exactly two fields, then
  \<open>image_id.split('.')[0]\<close>.
\<close>

definition parse_line :: "string \<Rightarrow> error + (string \<times> string)" where
  "parse_line line =
     (case py_split (CHR 0x09) (py_strip line) of
        [image_id, caption] \<Rightarrow>
          Inr (case py_split (CHR ''.'') image_id of [] \<Rightarrow> [] | w # ws \<Rightarrow> w, caption)
      | _ \<Rightarrow> Inl ValueError)"

text \<open>\<open>self.data[image_id].append(caption)\<close> on a \<open>defaultdict(list)\<close>.\<close>

fun dd_append :: "(string \<times> string list) list \<Rightarrow> string \<Rightarrow> string \<Rightarrow> (string \<times> string list) list" where
  "dd_append [] k c = [(k, [c])]"
| "dd_append ((k', cs) # d) k c =
     (if k' = k then (k', cs @ [c]) # d else (k', cs) # dd_append d k c)"

fun read_captions ::
  "(string \<times> string list) list \<Rightarrow> string list \<Rightarrow> error + (string \<times> string list) list" where
  "read_captions d [] = Inr d"
| "read_captions d (line # rest) =
     (case parse_line line of
        Inl e \<Rightarrow> Inl e
      | Inr (image_id, caption) \<Rightarrow> read_captions (dd_append d image_id caption) rest)"

text \<open>
  The data frame and \<open>to_dict(orient='index')\<close>: each image identifier is mapped to a dict
  with the two columns \<open>captions\<close> (the first caption, \<open>x[0]\<close>) and \<open>image_path\<close>.
\<close>

fun to_records :: "string \<Rightarrow> (string \<times> string list) list \<Rightarrow> error + (string \<times> captions_val) list" where
  "to_records path [] = Inr []"
| "to_records path ((image_id, cs) # d) =
     (case cs of
        [] \<Rightarrow> Inl IndexError
      | c # _ \<Rightarrow>
          (case to_records path d of
             Inl e \<Rightarrow> Inl e
           | Inr rs \<Rightarrow>
               Inr ((image_id, Record [(''captions'', c),
                      (''image_path'', path @ ''/Images/'' @ image_id @ ''.jpg'')]) # rs)))"

text \<open>The file system is a map from a path to the lines of the file.\<close>

definition load_data :: "(string \<rightharpoonup> string list) \<Rightarrow> string \<Rightarrow> error + (string \<times> captions_val) list" where
  "load_data fs path =
     (case fs (path @ ''/Flickr8k.token.txt'') of
        None \<Rightarrow> Inl FileNotFoundError
      | Some token_lines \<Rightarrow>
          (case read_captions [] token_lines of
             Inl e \<Rightarrow> Inl e
           | Inr d \<Rightarrow>
               (case fs (path @ ''/Flickr8k.lemma.token.txt'') of
                  None \<Rightarrow> Inl FileNotFoundError
                | Some lemma_lines \<Rightarrow>
                    (case read_captions d lemma_lines of
                       Inl e \<Rightarrow> Inl e
                     | Inr d' \<Rightarrow> to_records path d'))))"

section \<open>The dataset object: \<open>LoadFlickerData\<close>\<close>

text \<open>
  The fields of the object; \<open>'s\<close> is the state of the tokenizer. \<open>__init__\<close> stores its
  arguments and calls \<open>load_data\<close>; it does not call the tokenizer, whose state it
  returns as it got it.
\<close>

record 's LoadFlickerData =
  path :: string
  data :: "(string \<times> captions_val) list"
  tokenizer :: "string \<Rightarrow> 's \<Rightarrow> string list \<times> 's"
  vocab :: "vocab option"
  max_seq_length :: int

definition LoadFlickerData_init ::
  "(string \<rightharpoonup> string list) \<Rightarrow> string \<Rightarrow> int \<Rightarrow> (string \<Rightarrow> 's \<Rightarrow> string list \<times> 's) \<Rightarrow> 's \<Rightarrow>
     (error + 's LoadFlickerData) \<times> 's" where
  "LoadFlickerData_init fs dataset_path max_seq_len tok s =
     (case load_data fs dataset_path of
        Inl e \<Rightarrow> (Inl e, s)
      | Inr d \<Rightarrow>
          (Inr \<lparr> path = dataset_path, data = d, tokenizer = tok, vocab = None,
                 max_seq_length = max_seq_len \<rparr>, s))"

record 'img out_dict =
  image :: 'img
  caption_tokens :: "nat list"
  captions :: string
  attention_mask :: "bool list"

text \<open>
  \<open>__getitem__\<close> after its first line: the image, then the entries of the dict display
  in the order written. \<open>preprocess_image\<close> stands for \<open>__preprocess_image__\<close>, which
  reads and resizes the file with OpenCV.
\<close>

definition getitem_lookup ::
  "(string \<Rightarrow> error + 'img) \<Rightarrow> 's LoadFlickerData \<Rightarrow> py_index \<Rightarrow>
     nat list list \<Rightarrow> bool list list \<Rightarrow> error + 'img out_dict" where
  "getitem_lookup preprocess_image self item tokens_arrays attention_masks =
     (case dict_getitem (data self) item of Inl e \<Rightarrow> Inl e | Inr r \<Rightarrow>
     (case field_getitem r ''image_path'' of Inl e \<Rightarrow> Inl e | Inr image_path \<Rightarrow>
     (case preprocess_image image_path of Inl e \<Rightarrow> Inl e | Inr img \<Rightarrow>
     (case list_getitem tokens_arrays item of Inl e \<Rightarrow> Inl e | Inr toks \<Rightarrow>
     (case dict_getitem (data self) item of Inl e \<Rightarrow> Inl e | Inr r' \<Rightarrow>
     (case field_getitem r' ''captions'' of Inl e \<Rightarrow> Inl e | Inr caps \<Rightarrow>
     (case list_getitem attention_masks item of Inl e \<Rightarrow> Inl e | Inr msk \<Rightarrow>
        Inr \<lparr> image = img, caption_tokens = toks, captions = caps,
              attention_mask = msk \<rparr>)))))))"

text \<open>
  \<open>__getitem__\<close>: its first line calls \<open>__preprocess_caption__\<close> on \<open>self.data\<close>, and
  with it the tokenizer; the object itself is not assigned to.
\<close>

definition getitem ::
  "(string \<Rightarrow> error + 'img) \<Rightarrow> 's LoadFlickerData \<Rightarrow> py_index \<Rightarrow> 's \<Rightarrow>
     (error + 'img out_dict) \<times> 's" where
  "getitem preprocess_image self item s =
     (case preprocess_caption_run (tokenizer self) (max_seq_length self) (data self) s of
        (Inl e, s') \<Rightarrow> (Inl e, s')
      | (Inr (v, tokens_arrays, attention_masks), s') \<Rightarrow>
          (getitem_lookup preprocess_image self item tokens_arrays attention_masks, s'))"

text \<open>A sequence of accesses to the same object: the state of the tokenizer after them.\<close>

fun getitems ::
  "(string \<Rightarrow> error + 'img) \<Rightarrow> 's LoadFlickerData \<Rightarrow> py_index list \<Rightarrow> 's \<Rightarrow> 's" where
  "getitems preprocess_image self [] s = s"
| "getitems preprocess_image self (item # rest) s =
     getitems preprocess_image self rest (snd (getitem preprocess_image self item s))"

section \<open>Positional encoding: \<open>PositionalEncoding\<close>\<close>

text \<open>
  A tensor of rank three is its three sizes and its entries. Entries are real numbers:
  the rounding of 32-bit floating point is not modelled, the shapes and the indexing are.
\<close>

record tensor3 =
  size0 :: nat
  size1 :: nat
  size2 :: nat
  entry :: "nat \<Rightarrow> nat \<Rightarrow> nat \<Rightarrow> real"

text \<open>
  \<open>div_term = exp(arange(0, d_model, 2) * (-log(10000.0) / d_model))\<close>, and the
  buffer \<open>pe\<close> filled by \<open>pe[:, 0::2] = sin(position * div_term)\<close> and
  \<open>pe[:, 1::2] = cos(position * div_term)\<close>: row \<open>p\<close>, column \<open>f\<close>.
\<close>

definition div_term :: "nat \<Rightarrow> nat \<Rightarrow> real" where
  "div_term d_model i = exp (real (2 * i) * (- ln 10000 / real d_model))"

definition pe_entry :: "nat \<Rightarrow> nat \<Rightarrow> nat \<Rightarrow> real" where
  "pe_entry d_model p f =
     (if even f then sin (real p * div_term d_model (f div 2))
      else cos (real p * div_term d_model (f div 2)))"

text \<open>
  The module after \<open>__init__\<close>: the buffer has shape \<open>[1, max_len, d_model]\<close>.
  \<open>Dropout\<close> rejects a probability outside \<open>[0, 1]\<close>; \<open>torch.zeros\<close> rejects a
  negative size; the division by \<open>d_model\<close> raises when it is zero; the second slice
  assignment raises for an odd \<open>d_model\<close> above one, where the two sides differ in width.
\<close>

record PositionalEncoding =
  pe_max_len :: nat
  pe_d_model :: nat
  pe :: "nat \<Rightarrow> nat \<Rightarrow> real"

definition PositionalEncoding_init :: "int \<Rightarrow> real \<Rightarrow> int \<Rightarrow> error + PositionalEncoding" where
  "PositionalEncoding_init d_model dropout max_len =
     (if dropout < 0 \<or> 1 < dropout then Inl ValueError
      else if max_len < 0 \<or> d_model < 0 then Inl RuntimeError
      else if d_model = 0 then Inl ZeroDivisionError
      else if odd d_model \<and> d_model \<noteq> 1 then Inl RuntimeError
      else Inr \<lparr> pe_max_len = nat max_len, pe_d_model = nat d_model,
                 pe = pe_entry (nat d_model) \<rparr>)"

text \<open>Broadcasting of one dimension: the sizes must agree or one of them be 1.\<close>

definition bc_ok :: "nat \<Rightarrow> nat \<Rightarrow> bool" where
  "bc_ok a b = (a = b \<or> a = 1 \<or> b = 1)"

definition bc_size :: "nat \<Rightarrow> nat \<Rightarrow> nat" where
  "bc_size a b = (if a = 1 then b else a)"

definition bc_index :: "nat \<Rightarrow> nat \<Rightarrow> nat" where
  "bc_index n i = (if n = 1 then 0 else i)"

text \<open>
  \<open>forward\<close> in evaluation mode, where dropout is the identity:
  \<open>x + self.pe[:, :x.size(1)]\<close>. The slice keeps the first \<open>x.size(1)\<close> rows of the
  buffer, so the operand has shape \<open>[1, min(x.size(1), max_len), d_model]\<close>, and the sum
  broadcasts it against \<open>x\<close>.
\<close>

definition PositionalEncoding_forward :: "PositionalEncoding \<Rightarrow> tensor3 \<Rightarrow> error + tensor3" where
  "PositionalEncoding_forward self x =
     (let m = min (size1 x) (pe_max_len self); d = pe_d_model self
      in if bc_ok (size1 x) m \<and> bc_ok (size2 x) d then
           Inr \<lparr> size0 = size0 x, size1 = bc_size (size1 x) m, size2 = bc_size (size2 x) d,
                 entry = (\<lambda>s b f. entry x s (bc_index (size1 x) b) (bc_index (size2 x) f)
                                + pe self (bc_index m b) (bc_index d f)) \<rparr>
         else Inl RuntimeError)"

text \<open>
  The signal in the words of the specification: at position \<open>p\<close>, feature \<open>2i\<close> gets
  \<open>sin(p / 10000^(2i/d_model))\<close> and feature \<open>2i+1\<close> gets \<open>cos(p / 10000^(2i/d_model))\<close>.
\<close>

definition spec_signal :: "nat \<Rightarrow> nat \<Rightarrow> nat \<Rightarrow> real" where
  "spec_signal d_model p f =
     (if even f then sin (real p / 10000 powr (real (2 * (f div 2)) / real d_model))
      else cos (real p / 10000 powr (real (2 * (f div 2)) / real d_model)))"

definition zeros :: "nat \<Rightarrow> nat \<Rightarrow> nat \<Rightarrow> tensor3" where
  "zeros s b d = \<lparr> size0 = s, size1 = b, size2 = d, entry = (\<lambda>_ _ _. 0) \<rparr>"

section \<open>The decoder: \<open>TransformerDecoderLayer\<close> and \<open>Decoder\<close>\<close>

text \<open>
  The tensors of the decoder are values of a type \<open>'t\<close>; the sub-modules of a layer
  (attention, layer normalisation, feed-forward network, dropout) are the functions the
  layer holds, each of which may raise. \<open>MultiheadAttention\<close> returns the pair of the
  attention output and the attention weights. \<open>tadd\<close> is the sum of two tensors.
\<close>

record 't TransformerDecoderLayer =
  self_attn :: "'t \<Rightarrow> 't \<Rightarrow> 't \<Rightarrow> 't option \<Rightarrow> error + ('t \<times> 't)"
  self_attn_norm :: "'t \<Rightarrow> error + 't"
  cross_attn :: "'t \<Rightarrow> 't \<Rightarrow> 't \<Rightarrow> 't option \<Rightarrow> error + ('t \<times> 't)"
  cross_attn_norm :: "'t \<Rightarrow> error + 't"
  ffn :: "'t \<Rightarrow> error + 't"
  ffn_norm :: "'t \<Rightarrow> error + 't"
  dropout :: "'t \<Rightarrow> 't"

text \<open>\<open>TransformerDecoderLayer.forward\<close>; the tuple it returns is the list of its components.\<close>

definition TransformerDecoderLayer_forward ::
  "('t \<Rightarrow> 't \<Rightarrow> error + 't) \<Rightarrow> 't TransformerDecoderLayer \<Rightarrow>
     't \<Rightarrow> 't \<Rightarrow> 't option \<Rightarrow> 't option \<Rightarrow> error + 't list" where
  "TransformerDecoderLayer_forward tadd self tgt memory tgt_mask memory_mask =
     (case self_attn self tgt tgt tgt tgt_mask of Inl e \<Rightarrow> Inl e
      | Inr (tgt2, masked_self_attn_weights) \<Rightarrow>
     (case tadd tgt (dropout self tgt2) of Inl e \<Rightarrow> Inl e | Inr tgt_a \<Rightarrow>
     (case self_attn_norm self tgt_a of Inl e \<Rightarrow> Inl e | Inr tgt_b \<Rightarrow>
     (case cross_attn self tgt_b memory memory memory_mask of Inl e \<Rightarrow> Inl e
      | Inr (tgt3, cross_attn_weights) \<Rightarrow>
     (case tadd tgt_b (dropout self tgt3) of Inl e \<Rightarrow> Inl e | Inr tgt_c \<Rightarrow>
     (case cross_attn_norm self tgt_c of Inl e \<Rightarrow> Inl e | Inr tgt_d \<Rightarrow>
     (case ffn self tgt_d of Inl e \<Rightarrow> Inl e | Inr tgt4 \<Rightarrow>
     (case tadd tgt_d (dropout self tgt4) of Inl e \<Rightarrow> Inl e | Inr tgt_e \<Rightarrow>
     (case ffn_norm self tgt_e of Inl e \<Rightarrow> Inl e | Inr tgt_f \<Rightarrow>
        Inr [tgt_f, masked_self_attn_weights])))))))))"

record 't Decoder =
  layers :: "'t TransformerDecoderLayer list"
  output_projection :: "'t \<Rightarrow> error + 't"

text \<open>
  \<open>Decoder.__init__\<close>: \<open>mk_layer i\<close> is the construction of the layer number \<open>i\<close> from
  the hyperparameters, which may raise; \<open>range(num_layers)\<close> is empty for a number below one.
  \<open>mk_proj\<close> is the construction, after the layers, of the dropout module and of the
  linear output projection, which raises for a probability outside \<open>[0, 1]\<close> or a negative
  size.
\<close>

fun make_layers :: "(nat \<Rightarrow> error + 't TransformerDecoderLayer) \<Rightarrow> nat list \<Rightarrow>
    error + 't TransformerDecoderLayer list" where
  "make_layers mk_layer [] = Inr []"
| "make_layers mk_layer (i # rest) =
     (case mk_layer i of
        Inl e \<Rightarrow> Inl e
      | Inr l \<Rightarrow> (case make_layers mk_layer rest of Inl e \<Rightarrow> Inl e | Inr ls \<Rightarrow> Inr (l # ls)))"

definition Decoder_init ::
  "(nat \<Rightarrow> error + 't TransformerDecoderLayer) \<Rightarrow> (error + ('t \<Rightarrow> error + 't)) \<Rightarrow> int \<Rightarrow>
     error + 't Decoder" where
  "Decoder_init mk_layer mk_proj num_layers =
     (case make_layers mk_layer [0 ..< nat num_layers] of
        Inl e \<Rightarrow> Inl e
      | Inr ls \<Rightarrow>
          (case mk_proj of
             Inl e \<Rightarrow> Inl e
           | Inr proj \<Rightarrow> Inr \<lparr> layers = ls, output_projection = proj \<rparr>))"

text \<open>Unpacking a tuple into three names raises ValueError unless it has three components.\<close>

fun unpack3 :: "'a list \<Rightarrow> error + ('a \<times> 'a \<times> 'a)" where
  "unpack3 [a, b, c] = Inr (a, b, c)"
| "unpack3 _ = Inl ValueError"

text \<open>The loop of \<open>Decoder.forward\<close> over \<open>self.layers\<close>.\<close>

fun decoder_loop ::
  "('t \<Rightarrow> 't \<Rightarrow> error + 't) \<Rightarrow> 't TransformerDecoderLayer list \<Rightarrow>
     't \<Rightarrow> 't \<Rightarrow> 't option \<Rightarrow> 't option \<Rightarrow> error + 't" where
  "decoder_loop tadd [] tgt memory tgt_mask memory_mask = Inr tgt"
| "decoder_loop tadd (layer # rest) tgt memory tgt_mask memory_mask =
     (case TransformerDecoderLayer_forward tadd layer tgt memory tgt_mask memory_mask of
        Inl e \<Rightarrow> Inl e
      | Inr r \<Rightarrow>
          (case unpack3 r of
             Inl e \<Rightarrow> Inl e
           | Inr (tgt', masked_self_attn_weights, cross_attn_weights) \<Rightarrow>
               decoder_loop tadd rest tgt' memory tgt_mask memory_mask))"

definition Decoder_forward ::
  "('t \<Rightarrow> 't \<Rightarrow> error + 't) \<Rightarrow> 't Decoder \<Rightarrow> 't \<Rightarrow> 't \<Rightarrow> 't option \<Rightarrow> 't option \<Rightarrow> error + 't" where
  "Decoder_forward tadd self tgt memory tgt_mask memory_mask =
     (case decoder_loop tadd (layers self) tgt memory tgt_mask memory_mask of
        Inl e \<Rightarrow> Inl e
      | Inr tgt' \<Rightarrow> output_projection self tgt')"

text \<open>
  The composition the specification describes for the decoder stack: each layer's first
  component becomes the next layer's target, the memory is the same throughout, and the
  projection is applied after the last layer.
\<close>

fun spec_layers ::
  "('t \<Rightarrow> 't \<Rightarrow> error + 't) \<Rightarrow> 't TransformerDecoderLayer list \<Rightarrow>
     't \<Rightarrow> 't \<Rightarrow> 't option \<Rightarrow> 't option \<Rightarrow> error + 't" where
  "spec_layers tadd [] tgt memory tgt_mask memory_mask = Inr tgt"
| "spec_layers tadd (layer # rest) tgt memory tgt_mask memory_mask =
     (case TransformerDecoderLayer_forward tadd layer tgt memory tgt_mask memory_mask of
        Inl e \<Rightarrow> Inl e
      | Inr r \<Rightarrow>
          (case r of
             [tgt', masked_self_attn_weights] \<Rightarrow>
               spec_layers tadd rest tgt' memory tgt_mask memory_mask
           | _ \<Rightarrow> Inl ValueError))"

definition spec_decoder_forward ::
  "('t \<Rightarrow> 't \<Rightarrow> error + 't) \<Rightarrow> 't Decoder \<Rightarrow> 't \<Rightarrow> 't \<Rightarrow> 't option \<Rightarrow> 't option \<Rightarrow> error + 't" where
  "spec_decoder_forward tadd self tgt memory tgt_mask memory_mask =
     (case spec_layers tadd (layers self) tgt memory tgt_mask memory_mask of
        Inl e \<Rightarrow> Inl e
      | Inr tgt' \<Rightarrow> output_projection self tgt')"

section \<open>Concrete inputs\<close>

text \<open>
  A corpus directory \<open>/d\<close> with one image and one line in each annotation file, the
  whitespace tokenizer that counts its calls, and a
  decoder layer on integers whose sub-modules are identities; they serve as the inputs at
  which the statements below are evaluated.
\<close>

definition example_fs :: "string \<Rightarrow> string \<Rightarrow> (string \<rightharpoonup> string list)" where
  "example_fs caption lemma_caption =
     [''/d/Flickr8k.token.txt'' \<mapsto> [''img1.jpg#0'' @ [CHR 0x09] @ caption @ [CHR 0x0A]],
      ''/d/Flickr8k.lemma.token.txt'' \<mapsto> [''img1.jpg#0'' @ [CHR 0x09] @ lemma_caption @ [CHR 0x0A]]]"

definition example_data :: "string \<Rightarrow> (string \<times> captions_val) list" where
  "example_data caption =
     [(''img1'', Record [(''captions'', caption), (''image_path'', ''/d/Images/img1.jpg'')])]"

definition count_calls :: "string \<Rightarrow> nat \<Rightarrow> string list \<times> nat" where
  "count_calls = effectful split_ws (\<lambda>caption n. Suc n)"

definition example_object :: "string \<Rightarrow> nat LoadFlickerData" where
  "example_object caption =
     \<lparr> path = ''/d'', data = example_data caption, tokenizer = count_calls, vocab = None,
       max_seq_length = 5 \<rparr>"

definition int_add :: "int \<Rightarrow> int \<Rightarrow> error + int" where
  "int_add a b = Inr (a + b)"

definition example_layer :: "int TransformerDecoderLayer" where
  "example_layer =
     \<lparr> self_attn = (\<lambda>q k v m. Inr (q, k)), self_attn_norm = Inr,
       cross_attn = (\<lambda>q k v m. Inr (q, k)), cross_attn_norm = Inr,
       ffn = Inr, ffn_norm = Inr, dropout = (\<lambda>t. t) \<rparr>"

section \<open>Facts about the vocabulary\<close>

text \<open>
  The reverse dict maps each entry of a list without duplicates to its index, and
  nothing else.
\<close>

lemma fold_enum_notin:
  assumes "\<And>i tok m. f (i, tok) m = m(tok \<mapsto> i)"
  shows "t \<notin> set ws \<Longrightarrow> fold f (enumerate n ws) m t = m t"
  by (induction ws arbitrary: n m) (simp_all add: assms)

lemma fold_enum_nth:
  assumes "\<And>i tok m. f (i, tok) m = m(tok \<mapsto> i)"
  shows "distinct ws \<Longrightarrow> i < length ws \<Longrightarrow> fold f (enumerate n ws) m (ws ! i) = Some (n + i)"
proof (induction ws arbitrary: n m i)
  case Nil
  then show ?case by simp
next
  case (Cons w ws)
  show ?case
  proof (cases i)
    case 0
    with Cons.prems show ?thesis by (simp add: assms fold_enum_notin [of f, OF assms])
  next
    case (Suc j)
    have dj: "distinct ws" "j < length ws" using Cons.prems Suc by simp_all
    have "fold f (enumerate (Suc n) ws) (m(w \<mapsto> n)) (ws ! j) = Some (Suc n + j)"
      by (rule Cons.IH [OF dj])
    then show ?thesis using Suc by (simp add: assms)
  qed
qed

lemma reverse_dict_nth:
  "distinct ws \<Longrightarrow> i < length ws \<Longrightarrow> reverse_dict ws (ws ! i) = Some i"
  unfolding reverse_dict_def
  using fold_enum_nth [of "\<lambda>(i, tok) m. m(tok \<mapsto> i)" ws i 0 Map.empty] by simp

lemma reverse_dict_notin: "t \<notin> set ws \<Longrightarrow> reverse_dict ws t = None"
  unfolding reverse_dict_def
  using fold_enum_notin [of "\<lambda>(i, tok) m. m(tok \<mapsto> i)" t ws 0 Map.empty] by simp

text \<open>
  The keys of a counter are distinct, and they are the tokens counted.
\<close>

lemma counter_incr_keys:
  "map fst (counter_incr c t) = (if t \<in> set (map fst c) then map fst c else map fst c @ [t])"
  by (induction c t rule: counter_incr.induct) auto

lemma counter_incr_distinct:
  "distinct (map fst c) \<Longrightarrow> distinct (map fst (counter_incr c t))"
  by (simp add: counter_incr_keys)

lemma counter_update_distinct:
  "distinct (map fst c) \<Longrightarrow> distinct (map fst (counter_update c toks))"
  unfolding counter_update_def
  by (induction toks arbitrary: c) (simp_all add: counter_incr_distinct)

lemma count_tokens_distinct_gen:
  "distinct (map fst c) \<Longrightarrow>
   distinct (map fst (fold (\<lambda>cap c. counter_update c (tok cap)) caps c))"
  by (induction caps arbitrary: c) (simp_all add: counter_update_distinct)

lemma count_tokens_distinct: "distinct (map fst (count_tokens tok caps))"
  unfolding count_tokens_def by (rule count_tokens_distinct_gen) simp

lemma counter_incr_keys_set: "fst ` set (counter_incr c t) = insert t (fst ` set c)"
  by (induction c t rule: counter_incr.induct) auto

lemma counter_update_keys:
  "fst ` set (counter_update c toks) = fst ` set c \<union> set toks"
  unfolding counter_update_def
  by (induction toks arbitrary: c) (simp_all add: counter_incr_keys_set)

lemma count_tokens_keys_gen:
  "fst ` set (fold (\<lambda>cap c. counter_update c (tok cap)) caps c)
     = fst ` set c \<union> set (concat (map tok caps))"
  by (induction caps arbitrary: c) (simp_all add: counter_update_keys Un_assoc)

lemma count_tokens_keys:
  "fst ` set (count_tokens tok caps) = set (concat (map tok caps))"
  unfolding count_tokens_def using count_tokens_keys_gen [of tok caps "[]"] by simp

text \<open>
  Sorting and cutting the counter keeps its keys distinct, so \<open>itos\<close> has no duplicates:
  the specials, then words that are not specials.
\<close>

lemma map_insort_key_set:
  "set (map g (insort_key k x xs)) = insert (g x) (set (map g xs))"
  by (induction xs) auto

lemma distinct_map_insort_key:
  "distinct (map g (insort_key k x xs)) \<longleftrightarrow> g x \<notin> g ` set xs \<and> distinct (map g xs)"
  by (induction xs) (auto simp: set_insort_key)

lemma distinct_map_sort_key:
  "distinct (map g xs) \<Longrightarrow> distinct (map g (sort_key k xs))"
  by (induction xs) (simp_all add: distinct_map_insort_key)

lemma distinct_map_takeWhile:
  "distinct (map g xs) \<Longrightarrow> distinct (map g (takeWhile P xs))"
proof -
  assume d: "distinct (map g xs)"
  have "map g (takeWhile P xs) = take (length (takeWhile P xs)) (map g xs)"
    by (metis takeWhile_eq_take take_map)
  then show ?thesis using d by simp
qed

lemma set_takeWhile_subset: "set (takeWhile P xs) \<subseteq> set xs"
  by (induction xs) auto

lemma waf_distinct:
  "distinct (map fst c) \<Longrightarrow> distinct (map fst (words_and_frequencies sp c))"
  unfolding words_and_frequencies_def
  by (intro distinct_map_sort_key) (simp add: distinct_map_filter)

lemma waf_keys_not_special:
  "(w, f) \<in> set (words_and_frequencies sp c) \<Longrightarrow> w \<notin> set sp"
  unfolding words_and_frequencies_def by auto

lemma waf_subset: "set (words_and_frequencies sp c) \<subseteq> set c"
  unfolding words_and_frequencies_def by auto

lemma itos_Vocab:
  "itos (Vocab c sp) = sp @ map fst (takeWhile (\<lambda>(w, f). 1 \<le> f) (words_and_frequencies sp c))"
  by (simp add: Vocab_def Let_def)

lemma itos_subset:
  "set (itos (Vocab c sp)) \<subseteq> set sp \<union> fst ` set c"
proof -
  have "set (takeWhile (\<lambda>(w, f). 1 \<le> f) (words_and_frequencies sp c)) \<subseteq> set c"
    using set_takeWhile_subset waf_subset by fast
  then show ?thesis by (auto simp: itos_Vocab)
qed

lemma distinct_itos:
  assumes "distinct (map fst c)" "distinct sp"
  shows "distinct (itos (Vocab c sp))"
proof -
  let ?tw = "takeWhile (\<lambda>(w, f). 1 \<le> f) (words_and_frequencies sp c)"
  have 1: "distinct (map fst ?tw)"
    using assms(1) by (intro distinct_map_takeWhile waf_distinct)
  have 2: "set sp \<inter> set (map fst ?tw) = {}"
    using set_takeWhile_subset [of "\<lambda>(w, f). 1 \<le> f" "words_and_frequencies sp c"]
      waf_keys_not_special [of _ _ sp c] by fastforce
  show ?thesis using 1 2 assms(2) by (simp add: itos_Vocab)
qed

text \<open>
  Looking a token up gives its index in \<open>itos\<close>, or 0 when it is not there; the specials
  have the ids 0 to 3, and only the string \<open><eos>\<close> has the id 3.
\<close>

lemma vocab_getitem_nth:
  assumes "distinct (map fst c)" "distinct sp" "i < length (itos (Vocab c sp))"
  shows "vocab_getitem (Vocab c sp) (itos (Vocab c sp) ! i) = i"
proof -
  have "stoi (Vocab c sp) = reverse_dict (itos (Vocab c sp))"
    by (simp add: Vocab_def Let_def)
  then show ?thesis
    using reverse_dict_nth [OF distinct_itos [OF assms(1,2)] assms(3)]
    by (simp add: vocab_getitem_def)
qed

lemma vocab_getitem_absent:
  "t \<notin> set (itos (Vocab c sp)) \<Longrightarrow> vocab_getitem (Vocab c sp) t = 0"
proof -
  assume a: "t \<notin> set (itos (Vocab c sp))"
  have "stoi (Vocab c sp) = reverse_dict (itos (Vocab c sp))" "unk_index (Vocab c sp) = 0"
    by (simp_all add: Vocab_def Let_def)
  then show ?thesis using reverse_dict_notin [OF a] by (simp add: vocab_getitem_def)
qed

lemma vocab_getitem_special:
  assumes "distinct (map fst c)" "distinct sp" "i < length sp"
  shows "vocab_getitem (Vocab c sp) (sp ! i) = i"
proof -
  have "i < length (itos (Vocab c sp))" "itos (Vocab c sp) ! i = sp ! i"
    using assms(3) by (simp_all add: itos_Vocab nth_append)
  then show ?thesis using vocab_getitem_nth [OF assms(1,2), of i] by simp
qed

lemma distinct_specials: "distinct specials" "length specials = 4"
  by (simp_all add: specials_def)

lemma vocab_specials:
  assumes "distinct (map fst c)"
  shows "vocab_getitem (Vocab c specials) ''<unk>'' = 0"
    and "vocab_getitem (Vocab c specials) ''<pad>'' = 1"
    and "vocab_getitem (Vocab c specials) ''<bos>'' = 2"
    and "vocab_getitem (Vocab c specials) ''<eos>'' = 3"
  using vocab_getitem_special [OF assms distinct_specials(1), of 0]
    vocab_getitem_special [OF assms distinct_specials(1), of 1]
    vocab_getitem_special [OF assms distinct_specials(1), of 2]
    vocab_getitem_special [OF assms distinct_specials(1), of 3]
  by (simp_all add: specials_def)

lemma vocab_getitem_inj:
  assumes "distinct (map fst c)" "distinct sp"
    and "t \<in> set (itos (Vocab c sp))" "vocab_getitem (Vocab c sp) t = vocab_getitem (Vocab c sp) u"
    and "u \<in> set (itos (Vocab c sp))"
  shows "t = u"
proof -
  obtain i where i: "i < length (itos (Vocab c sp))" "itos (Vocab c sp) ! i = t"
    using assms(3) by (auto simp: in_set_conv_nth)
  obtain j where j: "j < length (itos (Vocab c sp))" "itos (Vocab c sp) ! j = u"
    using assms(5) by (auto simp: in_set_conv_nth)
  have "i = j"
    using vocab_getitem_nth [OF assms(1,2) i(1)] vocab_getitem_nth [OF assms(1,2) j(1)] i j assms(4)
    by simp
  with i j show ?thesis by simp
qed

lemma vocab_getitem_eos_iff:
  assumes "distinct (map fst c)"
  shows "vocab_getitem (Vocab c specials) t = 3 \<longleftrightarrow> t = ''<eos>''"
proof
  assume h: "vocab_getitem (Vocab c specials) t = 3"
  have eos_in: "''<eos>'' \<in> set (itos (Vocab c specials))"
    by (simp add: itos_Vocab specials_def)
  have "t \<in> set (itos (Vocab c specials))"
    using h vocab_getitem_absent [of t c specials] by fastforce
  then show "t = ''<eos>''"
    using vocab_getitem_inj [OF assms distinct_specials(1) _ _ eos_in, of t] h vocab_specials(4) [OF assms]
    by simp
next
  assume "t = ''<eos>''"
  then show "vocab_getitem (Vocab c specials) t = 3" using vocab_specials(4) [OF assms] by simp
qed

section \<open>Facts about the encoding of one caption\<close>

text \<open>
  The two branches of the encoder in closed form.
\<close>

lemma encode_caption_pad:
  assumes "int (length (tok cap)) + 2 \<le> L"
  shows "encode_caption tok v L cap =
     Inr (vocab_getitem v ''<bos>'' # map (vocab_getitem v) (tok cap)
            @ vocab_getitem v ''<eos>''
            # replicate (nat L - (length (tok cap) + 2)) (vocab_getitem v ''<pad>''),
          replicate (length (tok cap) + 2) True
            @ replicate (nat L - (length (tok cap) + 2)) False)"
proof -
  have a: "nat (L - (2 + int (length (tok cap)))) = nat L - (length (tok cap) + 2)"
    using assms by linarith
  have b: "min (nat L) (Suc (Suc (length (tok cap)))) = Suc (Suc (length (tok cap)))"
    using assms by linarith
  show ?thesis
    using assms
    by (simp add: encode_caption_def torch_ones_def mask_clear_from_def Let_def a b
        flip: replicate_Suc)
qed

lemma encode_caption_trunc:
  assumes "1 \<le> L" "L < int (length (tok cap)) + 2"
  shows "encode_caption tok v L cap =
     Inr (take (nat (L - 1)) (vocab_getitem v ''<bos>'' # map (vocab_getitem v) (tok cap))
            @ [vocab_getitem v ''<eos>''],
          replicate (nat L) True)"
proof -
  have a: "nat (L - 1) \<le> length (vocab_getitem v ''<bos>'' # map (vocab_getitem v) (tok cap))"
    using assms by simp
  have "take (nat (L - 1)) ((vocab_getitem v ''<bos>'' # map (vocab_getitem v) (tok cap)) @ [vocab_getitem v ''<eos>''])
      = take (nat (L - 1)) (vocab_getitem v ''<bos>'' # map (vocab_getitem v) (tok cap))"
    using a by (simp only: take_append) simp
  then show ?thesis
    using assms
    by (simp add: encode_caption_def torch_ones_def Let_def py_slice_to_def)
qed

lemma mask_monotone_replicate:
  "i \<le> j \<Longrightarrow> j < n + k \<Longrightarrow>
   \<not> (replicate n True @ replicate k False) ! i \<Longrightarrow> \<not> (replicate n True @ replicate k False) ! j"
  by (simp add: nth_append split: if_splits)

lemma count_one_iff:
  "b \<noteq> e \<Longrightarrow> p \<noteq> e \<Longrightarrow>
   count_list (b # zs @ e # replicate k p) e = 1 \<longleftrightarrow> e \<notin> set zs"
  by (simp add: count_list_0_iff)

lemma count_one_iff_trunc:
  "b \<noteq> e \<Longrightarrow> count_list (b # zs @ [e]) e = 1 \<longleftrightarrow> e \<notin> set zs"
  by (simp add: count_list_0_iff)

lemma eos_id_in_map:
  assumes "distinct (map fst c)"
  shows "3 \<in> set (map (vocab_getitem (Vocab c specials)) ys) \<longleftrightarrow> ''<eos>'' \<in> set ys"
proof
  assume "3 \<in> set (map (vocab_getitem (Vocab c specials)) ys)"
  then obtain t where t: "t \<in> set ys" "vocab_getitem (Vocab c specials) t = 3"
    by (metis (no_types) imageE list.set_map)
  from t(2) have "t = ''<eos>''" by (simp only: vocab_getitem_eos_iff [OF assms])
  with t(1) show "''<eos>'' \<in> set ys" by simp
next
  assume a: "''<eos>'' \<in> set ys"
  have "vocab_getitem (Vocab c specials) ''<eos>'' = 3" by (rule vocab_specials(4) [OF assms])
  then show "3 \<in> set (map (vocab_getitem (Vocab c specials)) ys)"
    using a by (metis (no_types) image_eqI list.set_map)
qed

text \<open>
  The arrays that \<open>__preprocess_caption__\<close> returns hold, at each index, the encoding of
  the caption visited at that index, with the vocabulary counted from all the captions
  visited.
\<close>

lemma encode_all_length:
  "encode_all tok v n caps = Inr (ta, ms) \<Longrightarrow> length ta = length caps \<and> length ms = length caps"
  by (induction caps arbitrary: ta ms) (auto split: sum.splits prod.splits)

lemma encode_all_nth:
  "encode_all tok v n caps = Inr (ta, ms) \<Longrightarrow> k < length caps \<Longrightarrow>
   encode_caption tok v n (caps ! k) = Inr (ta ! k, ms ! k)"
proof (induction caps arbitrary: ta ms k)
  case Nil
  then show ?case by simp
next
  case (Cons c caps)
  from Cons.prems(1) obtain t m ta' ms' where
    c: "encode_caption tok v n c = Inr (t, m)" and
    r: "encode_all tok v n caps = Inr (ta', ms')" and
    e: "ta = t # ta'" "ms = m # ms'"
    by (auto split: sum.splits prod.splits)
  show ?case
  proof (cases k)
    case 0
    then show ?thesis using c e by simp
  next
    case (Suc j)
    then have "j < length caps" using Cons.prems(2) by simp
    from Cons.IH [OF r this] show ?thesis using Suc e by simp
  qed
qed

lemma preprocess_caption_nth:
  assumes "preprocess_caption tok n d = Inr (v, ta, ms)" and "k < length (all_captions d)"
  shows "v = Vocab (count_tokens tok (all_captions d)) specials"
    and "length ta = length (all_captions d)" and "length ms = length (all_captions d)"
    and "encode_caption tok v n (all_captions d ! k) = Inr (ta ! k, ms ! k)"
proof -
  have v: "v = Vocab (count_tokens tok (all_captions d)) specials"
    and ea: "encode_all tok v n (all_captions d) = Inr (ta, ms)"
    using assms(1) by (auto simp: preprocess_caption_def Let_def split: sum.splits prod.splits)
  show "v = Vocab (count_tokens tok (all_captions d)) specials" by (rule v)
  show "length ta = length (all_captions d)" "length ms = length (all_captions d)"
    using encode_all_length [OF ea] by simp_all
  show "encode_caption tok v n (all_captions d ! k) = Inr (ta ! k, ms ! k)"
    by (rule encode_all_nth [OF ea assms(2)])
qed

section \<open>The claims about caption encoding and the vocabulary\<close>

text \<open>
  Claim C1, as amended. For every caption and every \<open>max_seq_length\<close> of at least 2,
  with the vocabulary built from any corpus: encoding succeeds; the id sequence and the
  mask both have length \<open>max_seq_length\<close>; the id sequence begins with the id of
  \<open><bos>\<close>; the first mask value is true; once a mask value is false, every later one
  is false; and the id sequence contains the id of \<open><eos>\<close> exactly once if and only if
  none of the first \<open>max_seq_length - 2\<close> tokens of the caption, those that are kept, is
  the string \<open><eos>\<close>.
\<close>

theorem encode_caption_invariants:
  assumes L: "2 \<le> L"
  shows "\<exists>ids msk.
     encode_caption tok (Vocab (count_tokens tok caps) specials) L cap = Inr (ids, msk)
     \<and> length ids = nat L \<and> length msk = nat L
     \<and> ids ! 0 = vocab_getitem (Vocab (count_tokens tok caps) specials) ''<bos>''
     \<and> (count_list ids (vocab_getitem (Vocab (count_tokens tok caps) specials) ''<eos>'') = 1
          \<longleftrightarrow> ''<eos>'' \<notin> set (take (nat (L - 2)) (tok cap)))
     \<and> msk ! 0
     \<and> (\<forall>i j. i \<le> j \<and> j < length msk \<and> \<not> msk ! i \<longrightarrow> \<not> msk ! j)"
proof -
  define v where "v = Vocab (count_tokens tok caps) specials"
  define xs where "xs = map (vocab_getitem v) (tok cap)"
  define zs where "zs = map (vocab_getitem v) (take (nat (L - 2)) (tok cap))"
  define b where "b = vocab_getitem v ''<bos>''"
  define e where "e = vocab_getitem v ''<eos>''"
  define p where "p = vocab_getitem v ''<pad>''"
  note d = count_tokens_distinct [of tok caps]
  have bv: "b = 2" and ev: "e = 3" and pv: "p = 1"
    using vocab_specials [OF d] by (simp_all add: b_def e_def p_def v_def)
  have zs_iff: "e \<notin> set zs \<longleftrightarrow> ''<eos>'' \<notin> set (take (nat (L - 2)) (tok cap))"
    unfolding zs_def v_def ev by (simp only: eos_id_in_map [OF d])
  have lx: "length xs = length (tok cap)" by (simp add: xs_def)
  have be: "b \<noteq> e" and pe: "p \<noteq> e" by (simp_all add: bv ev pv)
  show ?thesis
  proof (cases "int (length (tok cap)) + 2 \<le> L")
    case True
    define k where "k = nat L - (length (tok cap) + 2)"
    define ids where "ids = b # xs @ e # replicate k p"
    define msk where "msk = replicate (length (tok cap) + 2) True @ replicate k False"
    have enc: "encode_caption tok v L cap = Inr (ids, msk)"
      using encode_caption_pad [where tok = tok and cap = cap and L = L and v = v, OF True]
      by (simp only: ids_def msk_def k_def xs_def b_def e_def p_def)
    have len1: "length ids = nat L" using True by (simp add: ids_def k_def lx)
    have len2: "length msk = nat L" using True by (simp add: msk_def k_def)
    have "take (nat (L - 2)) (tok cap) = tok cap" using True by simp
    then have xz: "xs = zs" by (simp add: xs_def zs_def)
    have cnt: "count_list ids e = 1 \<longleftrightarrow> ''<eos>'' \<notin> set (take (nat (L - 2)) (tok cap))"
      using count_one_iff [OF be pe, of zs k] zs_iff by (simp only: ids_def xz)
    have m0: "msk ! 0" by (simp add: msk_def)
    have mono: "\<forall>i j. i \<le> j \<and> j < length msk \<and> \<not> msk ! i \<longrightarrow> \<not> msk ! j"
      unfolding msk_def using mask_monotone_replicate [of _ _ "length (tok cap) + 2" k]
      by (simp only: length_append length_replicate) blast
    have i0: "ids ! 0 = b" by (simp add: ids_def)
    show ?thesis
      using enc len1 len2 i0 cnt m0 mono
      unfolding v_def b_def e_def by (intro exI [of _ ids] exI [of _ msk]) (intro conjI)
  next
    case False
    then have lt: "L < int (length (tok cap)) + 2" by simp
    have L1: "1 \<le> L" using L by simp
    define ids where "ids = take (nat (L - 1)) (b # xs) @ [e]"
    define msk where "msk = replicate (nat L) True"
    have enc: "encode_caption tok v L cap = Inr (ids, msk)"
      using encode_caption_trunc [where tok = tok and cap = cap and L = L and v = v, OF L1 lt]
      by (simp only: ids_def msk_def xs_def b_def e_def)
    have n: "nat (L - 1) = Suc (nat (L - 2))" using L by simp
    have "take (nat (L - 2)) xs = zs" by (simp add: xs_def zs_def take_map)
    then have ids': "ids = b # zs @ [e]" by (simp add: ids_def n)
    have len1: "length ids = nat L" using lt L by (simp add: ids_def lx)
    have len2: "length msk = nat L" by (simp add: msk_def)
    have cnt: "count_list ids e = 1 \<longleftrightarrow> ''<eos>'' \<notin> set (take (nat (L - 2)) (tok cap))"
      using count_one_iff_trunc [OF be, of zs] zs_iff by (simp only: ids')
    have m0: "msk ! 0" using L by (simp add: msk_def)
    have mono: "\<forall>i j. i \<le> j \<and> j < length msk \<and> \<not> msk ! i \<longrightarrow> \<not> msk ! j"
      by (simp add: msk_def)
    have i0: "ids ! 0 = b" by (simp add: ids')
    show ?thesis
      using enc len1 len2 i0 cnt m0 mono
      unfolding v_def b_def e_def by (intro exI [of _ ids] exI [of _ msk]) (intro conjI)
  qed
qed

theorem encode_caption_invariants_witness:
  "(2::int) \<le> 6 \<and> ''<eos>'' \<notin> set (take (nat (6 - 2)) (split_ws ''a dog runs''))
   \<and> (\<exists>ids msk.
     encode_caption split_ws (Vocab (count_tokens split_ws [''a dog runs'', ''a cat runs'']) specials) 6
         ''a dog runs'' = Inr (ids, msk)
     \<and> length ids = nat 6 \<and> length msk = nat 6
     \<and> ids ! 0 = vocab_getitem (Vocab (count_tokens split_ws [''a dog runs'', ''a cat runs'']) specials) ''<bos>''
     \<and> count_list ids (vocab_getitem (Vocab (count_tokens split_ws [''a dog runs'', ''a cat runs'']) specials) ''<eos>'') = 1
     \<and> msk ! 0
     \<and> (\<forall>i j. i \<le> j \<and> j < length msk \<and> \<not> msk ! i \<longrightarrow> \<not> msk ! j))"
proof -
  have h1: "(2::int) \<le> 6" by simp
  have h2: "''<eos>'' \<notin> set (take (nat (6 - 2)) (split_ws ''a dog runs''))" by code_simp
  obtain ids msk where r:
    "encode_caption split_ws (Vocab (count_tokens split_ws [''a dog runs'', ''a cat runs'']) specials) 6
         ''a dog runs'' = Inr (ids, msk)"
    "length ids = nat 6" "length msk = nat 6"
    "ids ! 0 = vocab_getitem (Vocab (count_tokens split_ws [''a dog runs'', ''a cat runs'']) specials) ''<bos>''"
    "count_list ids (vocab_getitem (Vocab (count_tokens split_ws [''a dog runs'', ''a cat runs'']) specials) ''<eos>'') = 1
          \<longleftrightarrow> ''<eos>'' \<notin> set (take (nat (6 - 2)) (split_ws ''a dog runs''))"
    "msk ! 0"
    "\<forall>i j. i \<le> j \<and> j < length msk \<and> \<not> msk ! i \<longrightarrow> \<not> msk ! j"
    using encode_caption_invariants [where L = 6 and tok = split_ws and cap = "''a dog runs''"
        and caps = "[''a dog runs'', ''a cat runs'']", OF h1]
    by blast
  have c: "count_list ids (vocab_getitem (Vocab (count_tokens split_ws [''a dog runs'', ''a cat runs'']) specials) ''<eos>'') = 1"
    by (rule iffD2 [OF r(5) h2])
  show ?thesis
    using h1 h2 r(1,2,3,4) c r(6,7)
    by (intro conjI exI [of _ ids] exI [of _ msk])
qed

text \<open>
  Claim C1 as stated fails in its part on \<open><eos>\<close>: the caption \<open><eos>\<close> is
  tokenized to the token \<open><eos>\<close>, which the vocabulary maps to the id 3 of the
  special, so the encoded sequence holds that id twice.
\<close>

theorem encode_caption_two_eos:
  "(2::int) \<le> 4
   \<and> encode_caption split_ws (Vocab (count_tokens split_ws [''<eos>'']) specials) 4 ''<eos>''
       = Inr ([2, 3, 3, 1], [True, True, True, False])
   \<and> vocab_getitem (Vocab (count_tokens split_ws [''<eos>'']) specials) ''<eos>'' = 3
   \<and> count_list [2, 3, 3, 1] (3::nat) = 2"
  by code_simp

text \<open>
  Claim C3. For every caption whose number of tokens plus two exceeds
  \<open>max_seq_length\<close>, with any vocabulary and any \<open>max_seq_length\<close> of at least 1 (the
  specification admits none below 2): the id sequence is the first
  \<open>max_seq_length - 1\<close> ids of the \<open><bos>\<close>-prefixed sequence followed by the id of
  \<open><eos>\<close>, which is therefore at position \<open>max_seq_length - 1\<close>, and the mask is true
  at each of its \<open>max_seq_length\<close> positions.
\<close>

theorem truncation_forces_eos:
  assumes "1 \<le> L" and "L < int (length (tok cap)) + 2"
  shows "\<exists>ids msk. encode_caption tok v L cap = Inr (ids, msk)
     \<and> ids = take (nat (L - 1)) (vocab_getitem v ''<bos>'' # map (vocab_getitem v) (tok cap))
               @ [vocab_getitem v ''<eos>'']
     \<and> length ids = nat L
     \<and> ids ! nat (L - 1) = vocab_getitem v ''<eos>''
     \<and> length msk = nat L
     \<and> (\<forall>i < nat L. msk ! i)"
proof -
  define pre where
    "pre = take (nat (L - 1)) (vocab_getitem v ''<bos>'' # map (vocab_getitem v) (tok cap))"
  have enc: "encode_caption tok v L cap = Inr (pre @ [vocab_getitem v ''<eos>''], replicate (nat L) True)"
    unfolding pre_def
    by (rule encode_caption_trunc [where tok = tok and cap = cap and L = L and v = v, OF assms])
  have lp: "length pre = nat (L - 1)" using assms by (simp add: pre_def)
  have len: "length (pre @ [vocab_getitem v ''<eos>'']) = nat L" using assms lp by simp
  have last: "(pre @ [vocab_getitem v ''<eos>'']) ! nat (L - 1) = vocab_getitem v ''<eos>''"
    using lp by (metis nth_append_length)
  have msk: "\<forall>i < nat L. replicate (nat L) True ! i" by simp
  show ?thesis
    using enc len last msk unfolding pre_def
    by (intro exI [of _ "pre @ [vocab_getitem v ''<eos>'']"] exI [of _ "replicate (nat L) True"])
       (simp add: pre_def)
qed

theorem truncation_forces_eos_witness:
  "(1::int) \<le> 5 \<and> 5 < int (length (split_ws ''a b c d e f'')) + 2
   \<and> (\<exists>ids msk.
        encode_caption split_ws (Vocab (count_tokens split_ws [''a b c d e f'']) specials) 5
          ''a b c d e f'' = Inr (ids, msk)
     \<and> ids = take (nat (5 - 1))
               (vocab_getitem (Vocab (count_tokens split_ws [''a b c d e f'']) specials) ''<bos>''
                # map (vocab_getitem (Vocab (count_tokens split_ws [''a b c d e f'']) specials))
                      (split_ws ''a b c d e f''))
               @ [vocab_getitem (Vocab (count_tokens split_ws [''a b c d e f'']) specials) ''<eos>'']
     \<and> length ids = nat 5
     \<and> ids ! nat (5 - 1) = vocab_getitem (Vocab (count_tokens split_ws [''a b c d e f'']) specials) ''<eos>''
     \<and> length msk = nat 5
     \<and> (\<forall>i < nat 5. msk ! i))"
proof -
  have h1: "(1::int) \<le> 5" by simp
  have h2: "5 < int (length (split_ws ''a b c d e f'')) + 2" by code_simp
  show ?thesis
    using truncation_forces_eos [where L = 5 and tok = split_ws and cap = "''a b c d e f''"
        and v = "Vocab (count_tokens split_ws [''a b c d e f'']) specials", OF h1 h2] h1 h2
    by (intro conjI)
qed

text \<open>
  Claim C5, as amended. With the vocabulary built from any corpus: every token of the
  vocabulary is mapped to an id that is mapped back to it; every token that is neither in
  the corpus nor one of the four specials is mapped to 0, the id of \<open><unk>\<close>; and the
  lookup of an id below 0 or not below the size of the vocabulary fails with
  \<open>OutOfRange\<close>.
\<close>

theorem vocab_round_trip:
  "(\<forall>t \<in> set (itos (Vocab (count_tokens tok caps) specials)).
      id_to_token (Vocab (count_tokens tok caps) specials)
        (int (vocab_getitem (Vocab (count_tokens tok caps) specials) t)) = Inr t)
   \<and> (\<forall>t. t \<notin> set (concat (map tok caps)) \<and> t \<notin> set specials \<longrightarrow>
          vocab_getitem (Vocab (count_tokens tok caps) specials) t = 0
          \<and> vocab_getitem (Vocab (count_tokens tok caps) specials) ''<unk>'' = 0)
   \<and> (\<forall>i. i < 0 \<or> int (length (itos (Vocab (count_tokens tok caps) specials))) \<le> i \<longrightarrow>
          id_to_token (Vocab (count_tokens tok caps) specials) i = Inl OutOfRange)"
proof -
  define v where "v = Vocab (count_tokens tok caps) specials"
  note d = count_tokens_distinct [of tok caps]
  have rt: "id_to_token v (int (vocab_getitem v t)) = Inr t" if tin: "t \<in> set (itos v)" for t
  proof -
    obtain i where i: "i < length (itos v)" "itos v ! i = t"
      using tin by (auto simp: in_set_conv_nth)
    have "vocab_getitem v t = i"
      using vocab_getitem_nth [OF d distinct_specials(1), of i] i by (simp add: v_def)
    then show ?thesis using i by (simp add: id_to_token_def)
  qed
  have unk: "vocab_getitem v t = 0" if "t \<notin> set (concat (map tok caps))" "t \<notin> set specials" for t
  proof -
    have "t \<notin> set (itos v)"
      using that itos_subset [of "count_tokens tok caps" specials] count_tokens_keys [of tok caps]
      unfolding v_def by blast
    then show ?thesis unfolding v_def by (rule vocab_getitem_absent)
  qed
  have u0: "vocab_getitem v ''<unk>'' = 0"
    using vocab_specials(1) [OF d] by (simp add: v_def)
  have oor: "id_to_token v i = Inl OutOfRange" if "i < 0 \<or> int (length (itos v)) \<le> i" for i
    using that by (auto simp: id_to_token_def)
  show ?thesis using rt unk u0 oor unfolding v_def by blast
qed

theorem vocab_round_trip_witness:
  "''dog'' \<in> set (itos (Vocab (count_tokens split_ws [''a dog runs'', ''a cat runs'']) specials))
   \<and> id_to_token (Vocab (count_tokens split_ws [''a dog runs'', ''a cat runs'']) specials)
        (int (vocab_getitem (Vocab (count_tokens split_ws [''a dog runs'', ''a cat runs'']) specials)
               ''dog'')) = Inr ''dog''
   \<and> ''bird'' \<notin> set (concat (map split_ws [''a dog runs'', ''a cat runs'']))
   \<and> ''bird'' \<notin> set specials
   \<and> vocab_getitem (Vocab (count_tokens split_ws [''a dog runs'', ''a cat runs'']) specials) ''bird'' = 0
   \<and> int (length (itos (Vocab (count_tokens split_ws [''a dog runs'', ''a cat runs'']) specials))) \<le> 8
   \<and> id_to_token (Vocab (count_tokens split_ws [''a dog runs'', ''a cat runs'']) specials) 8 = Inl OutOfRange"
proof -
  have a: "''dog'' \<in> set (itos (Vocab (count_tokens split_ws [''a dog runs'', ''a cat runs'']) specials))"
    by code_simp
  have b: "''bird'' \<notin> set (concat (map split_ws [''a dog runs'', ''a cat runs'']))"
    by code_simp
  have c: "''bird'' \<notin> set specials" by code_simp
  have l: "int (length (itos (Vocab (count_tokens split_ws [''a dog runs'', ''a cat runs'']) specials))) \<le> 8"
    by code_simp
  show ?thesis
    using vocab_round_trip [of split_ws "[''a dog runs'', ''a cat runs'']"] a b c l by blast
qed

text \<open>
  Claim C5 as stated, for every token absent from the corpus, fails at the specials: the
  string \<open><pad>\<close> does not occur in the corpus below and is mapped to 1, not to 0.
\<close>

theorem special_token_absent_from_corpus:
  "''<pad>'' \<notin> set (concat (map split_ws [''a dog runs'']))
   \<and> vocab_getitem (Vocab (count_tokens split_ws [''a dog runs'']) specials) ''<pad>'' = 1"
  by code_simp

text \<open>
  Claim C6. The two captions \<open>a dog runs\<close> and \<open>a cat runs\<close>, stored as caption
  lists under two image identifiers and tokenized by whitespace, give a vocabulary of
  exactly 8 ids: the four specials and the tokens \<open>a\<close>, \<open>dog\<close>, \<open>runs\<close>, \<open>cat\<close>.
  With \<open>max_seq_length = 6\<close> the first caption is encoded as the ids of
  \<open><bos>, a, dog, runs, <eos>, <pad>\<close> with the mask true five times, then false.
\<close>

theorem two_captions_example:
  "(case preprocess_caption split_ws 6
           [(''img1'', CaptionList [''a dog runs'']), (''img2'', CaptionList [''a cat runs''])] of
      Inl e \<Rightarrow> None
    | Inr (v, tokens_arrays, attention_masks) \<Rightarrow>
        Some (length (itos v), set (itos v), map (map (\<lambda>i. itos v ! i)) tokens_arrays, attention_masks))
   = Some (8, set specials \<union> {''a'', ''dog'', ''runs'', ''cat''},
           [[''<bos>'', ''a'', ''dog'', ''runs'', ''<eos>'', ''<pad>''],
            [''<bos>'', ''a'', ''cat'', ''runs'', ''<eos>'', ''<pad>'']],
           [[True, True, True, True, True, False], [True, True, True, True, True, False]])"
  by code_simp

section \<open>The claims about the dataset object\<close>

text \<open>
  What \<open>load_data\<close> stores is a dict of two fields for each image, so the loops of
  \<open>__preprocess_caption__\<close> visit the two field names once for each image.
\<close>

lemma to_records_captions:
  "to_records p d = Inr rs \<Longrightarrow>
   length rs = length d \<and> all_captions rs = concat (replicate (length d) [''captions'', ''image_path''])"
proof (induction p d arbitrary: rs rule: to_records.induct)
  case (1 p)
  then show ?case by (simp add: all_captions_def)
next
  case (2 p image_id cs d)
  then show ?case
    by (auto simp: all_captions_def split: list.splits sum.splits)
qed

lemma load_data_captions:
  assumes "load_data fs p = Inr d"
  shows "all_captions d = concat (replicate (length d) [''captions'', ''image_path''])"
proof -
  obtain d' where "to_records p d' = Inr d"
    using assms by (auto simp: load_data_def split: option.splits sum.splits)
  then show ?thesis using to_records_captions [of p d' d] by simp
qed

lemma load_example1:
  "load_data (example_fs ''a dog runs'' ''a dog run'') ''/d'' = Inr (example_data ''a dog runs'')"
  by code_simp

lemma load_example2:
  "load_data (example_fs ''two cats sleep'' ''two cat sleep'') ''/d'' = Inr (example_data ''two cats sleep'')"
  by code_simp

text \<open>
  Claim C9. For two corpora that \<open>load_data\<close> loads with the same number of images,
  whatever their captions: the strings that \<open>__preprocess_caption__\<close> tokenizes are the
  field names \<open>captions\<close> and \<open>image_path\<close>, once for each image, and the vocabulary,
  the token arrays and the masks it returns are the same for both.
\<close>

theorem preprocess_ignores_caption_text:
  assumes "load_data fs1 p1 = Inr d1" and "load_data fs2 p2 = Inr d2" and "length d1 = length d2"
  shows "all_captions d1 = concat (replicate (length d1) [''captions'', ''image_path''])
       \<and> all_captions d2 = all_captions d1
       \<and> preprocess_caption tok n d1 = preprocess_caption tok n d2"
proof -
  have a: "all_captions d1 = concat (replicate (length d1) [''captions'', ''image_path''])"
    by (rule load_data_captions [OF assms(1)])
  have b: "all_captions d2 = all_captions d1"
    using load_data_captions [OF assms(2)] a assms(3) by simp
  have "preprocess_caption tok n d1 = preprocess_caption tok n d2"
    by (simp only: preprocess_caption_def b)
  with a b show ?thesis by simp
qed

theorem preprocess_ignores_caption_text_witness:
  "load_data (example_fs ''a dog runs'' ''a dog run'') ''/d'' = Inr (example_data ''a dog runs'')
   \<and> load_data (example_fs ''two cats sleep'' ''two cat sleep'') ''/d'' = Inr (example_data ''two cats sleep'')
   \<and> length (example_data ''a dog runs'') = length (example_data ''two cats sleep'')
   \<and> all_captions (example_data ''a dog runs'') = [''captions'', ''image_path'']
   \<and> preprocess_caption split_ws 5 (example_data ''a dog runs'')
       = preprocess_caption split_ws 5 (example_data ''two cats sleep'')"
proof -
  have len: "length (example_data ''a dog runs'') = length (example_data ''two cats sleep'')"
    by (simp add: example_data_def)
  note t = preprocess_ignores_caption_text [OF load_example1 load_example2 len, of split_ws 5]
  have eq: "preprocess_caption split_ws 5 (example_data ''a dog runs'')
       = preprocess_caption split_ws 5 (example_data ''two cats sleep'')"
    by (rule t [THEN conjunct2, THEN conjunct2])
  have caps: "all_captions (example_data ''a dog runs'') = [''captions'', ''image_path'']"
    by (simp add: all_captions_def example_data_def)
  show ?thesis
    using load_example1 load_example2 len caps eq by (intro conjI)
qed

text \<open>
  A tokenizer that returns \<open>tok caption\<close> and changes its state by \<open>step caption\<close>:
  \<open>__preprocess_caption__\<close> returns what it returns for the function \<open>tok\<close>, and, when
  \<open>max_seq_length\<close> is not negative so that no encoding raises, it has called the
  tokenizer on every caption it visits, once in each of its two loops.
\<close>

lemma encode_caption_tokens:
  "encode_caption (\<lambda>c. tok cap) v n cap = encode_caption tok v n cap"
  by (simp add: encode_caption_def)

lemma encode_caption_succeeds:
  "0 \<le> n \<Longrightarrow> \<exists>ids msk. encode_caption tok v n cap = Inr (ids, msk)"
  by (simp add: encode_caption_def torch_ones_def Let_def)

lemma count_loop_pure:
  assumes "\<And>c s. cb c s = (tok c, step c s)"
  shows "count_loop cb caps c s =
     (fold (\<lambda>cap c. counter_update c (tok cap)) caps c, fold step caps s)"
  by (induction caps arbitrary: c s) (simp_all add: assms)

lemma encode_loop_result:
  assumes "\<And>c s. cb c s = (tok c, step c s)"
  shows "fst (encode_loop cb v n caps s) = encode_all tok v n caps"
proof (induction caps arbitrary: s)
  case Nil
  then show ?case by simp
next
  case (Cons cap caps)
  have "fst (encode_loop cb v n caps (step cap s)) = encode_all tok v n caps"
    by (rule Cons.IH)
  then show ?case
    by (cases "encode_loop cb v n caps (step cap s)")
       (auto simp: assms [of cap s] encode_caption_tokens split: sum.splits prod.splits)
qed

lemma encode_loop_state:
  assumes "\<And>c s. cb c s = (tok c, step c s)" and "0 \<le> n"
  shows "snd (encode_loop cb v n caps s) = fold step caps s"
proof (induction caps arbitrary: s)
  case Nil
  then show ?case by simp
next
  case (Cons cap caps)
  obtain ids msk where e: "encode_caption tok v n cap = Inr (ids, msk)"
    using encode_caption_succeeds [OF assms(2)] by blast
  have "snd (encode_loop cb v n caps (step cap s)) = fold step caps (step cap s)"
    by (rule Cons.IH)
  then show ?case
    by (cases "encode_loop cb v n caps (step cap s)")
       (auto simp: assms(1) [of cap s] encode_caption_tokens e split: sum.splits prod.splits)
qed

lemma run_result_pure:
  assumes "\<And>c s. cb c s = (tok c, step c s)"
  shows "fst (preprocess_caption_run cb n d s) = preprocess_caption tok n d"
proof -
  let ?v = "Vocab (count_tokens tok (all_captions d)) specials"
  let ?s = "fold step (all_captions d) s"
  have "fst (encode_loop cb ?v n (all_captions d) ?s) = encode_all tok ?v n (all_captions d)"
    by (rule encode_loop_result [OF assms])
  then show ?thesis
    by (cases "encode_loop cb ?v n (all_captions d) ?s")
       (auto simp: preprocess_caption_run_def preprocess_caption_def count_loop_pure [OF assms]
          count_tokens_def Let_def split: sum.splits prod.splits)
qed

lemma run_state_pure:
  assumes "\<And>c s. cb c s = (tok c, step c s)" and "0 \<le> n"
  shows "snd (preprocess_caption_run cb n d s) = fold step (all_captions d @ all_captions d) s"
proof -
  let ?v = "Vocab (count_tokens tok (all_captions d)) specials"
  let ?s = "fold step (all_captions d) s"
  have "snd (encode_loop cb ?v n (all_captions d) ?s) = fold step (all_captions d) ?s"
    by (rule encode_loop_state [OF assms])
  then show ?thesis
    by (cases "encode_loop cb ?v n (all_captions d) ?s")
       (auto simp: preprocess_caption_run_def count_loop_pure [OF assms(1)] count_tokens_def
          split: sum.splits prod.splits)
qed

lemma effectful_apply: "effectful tok step c s = (tok c, step c s)"
  by (simp add: effectful_def)

lemma preprocess_caption_run_result:
  "fst (preprocess_caption_run (effectful tok step) n d s) = preprocess_caption tok n d"
  by (rule run_result_pure [OF effectful_apply])

lemma preprocess_caption_run_state:
  "0 \<le> n \<Longrightarrow>
   snd (preprocess_caption_run (effectful tok step) n d s)
     = fold step (all_captions d @ all_captions d) s"
  by (rule run_state_pure [OF effectful_apply])

text \<open>
  An access returns what the lookups return on the arrays of that call, and leaves the
  tokenizer in the state in which the call left it.
\<close>

lemma getitem_result:
  "fst (getitem pre_img self item s) =
     (case fst (preprocess_caption_run (tokenizer self) (max_seq_length self) (data self) s) of
        Inl e \<Rightarrow> Inl e
      | Inr (v, ta, ms) \<Rightarrow> getitem_lookup pre_img self item ta ms)"
  by (auto simp: getitem_def split: sum.splits prod.splits)

lemma getitem_state:
  "snd (getitem pre_img self item s) =
     snd (preprocess_caption_run (tokenizer self) (max_seq_length self) (data self) s)"
  by (auto simp: getitem_def split: sum.splits prod.splits)

lemma getitems_state:
  assumes "tokenizer self = effectful tok step" and "0 \<le> max_seq_length self"
  shows "getitems pre_img self items s =
     fold step (concat (replicate (length items) (all_captions (data self) @ all_captions (data self)))) s"
proof (induction items arbitrary: s)
  case Nil
  then show ?case by simp
next
  case (Cons item items)
  have "snd (getitem pre_img self item s)
          = fold step (all_captions (data self) @ all_captions (data self)) s"
    using preprocess_caption_run_state [OF assms(2), of tok step "data self" s]
    by (simp only: getitem_state assms(1))
  then show ?case using Cons.IH by simp
qed

lemma init_example:
  "LoadFlickerData_init (example_fs ''a dog runs'' ''a dog run'') ''/d'' 5 count_calls 0
     = (Inr (example_object ''a dog runs''), 0)"
  by (simp add: LoadFlickerData_init_def load_example1 example_object_def)

lemma init_example_eff:
  "LoadFlickerData_init (example_fs ''a dog runs'' ''a dog run'') ''/d'' 5
       (effectful split_ws (\<lambda>caption n. Suc n)) (0::nat)
     = (Inr (example_object ''a dog runs''), 0)"
  using init_example by (simp add: count_calls_def)



text \<open>
  On the example object: the key of the stored image raises TypeError at the list of
  token arrays, another string and an integer raise KeyError at \<open>self.data\<close>.
\<close>

lemma getitem_examples:
  "fst (getitem (\<lambda>p. Inr ()) (example_object ''a dog runs'') (IdxStr ''img1'') 0) = Inl TypeError"
  "fst (getitem (\<lambda>p. Inr ()) (example_object ''a dog runs'') (IdxStr ''img2'') 0) = Inl KeyError"
  "fst (getitem (\<lambda>p. Inr ()) (example_object ''a dog runs'') (IdxInt 0) 0) = Inl KeyError"
  by code_simp+



text \<open>
  Claim C8, as amended. \<open>__init__\<close> does not call the tokenizer and caches no
  vocabulary (\<open>self.vocab\<close> is \<open>None\<close>). For a \<open>max_seq_length\<close> that is not
  negative and a tokenizer whose tokens depend on the caption alone, every call of
  \<open>__getitem__\<close> returns the lookups on what \<open>__preprocess_caption__\<close> computes from
  the whole of \<open>self.data\<close> in that call, and calls the tokenizer on every caption
  visited, twice; a sequence of accesses does so once for each access.
\<close>

theorem preprocess_on_every_access:
  assumes init: "LoadFlickerData_init fs p n (effectful tok step) s0 = (Inr self, s1)"
    and n: "0 \<le> n"
  shows "s1 = s0 \<and> vocab self = None
       \<and> fst (getitem pre_img self item s) =
           (case preprocess_caption tok n (data self) of
              Inl e \<Rightarrow> Inl e
            | Inr (v, ta, ms) \<Rightarrow> getitem_lookup pre_img self item ta ms)
       \<and> snd (getitem pre_img self item s)
           = fold step (all_captions (data self) @ all_captions (data self)) s
       \<and> getitems pre_img self items s
           = fold step (concat (replicate (length items)
                                  (all_captions (data self) @ all_captions (data self)))) s"
proof -
  have f: "s1 = s0" "vocab self = None" "tokenizer self = effectful tok step"
    "max_seq_length self = n"
    using init by (auto simp: LoadFlickerData_init_def split: sum.splits)
  have r: "fst (getitem pre_img self item s) =
           (case preprocess_caption tok n (data self) of
              Inl e \<Rightarrow> Inl e
            | Inr (v, ta, ms) \<Rightarrow> getitem_lookup pre_img self item ta ms)"
    by (simp only: getitem_result f(3,4) preprocess_caption_run_result)
  have st: "snd (getitem pre_img self item s)
           = fold step (all_captions (data self) @ all_captions (data self)) s"
    by (simp only: getitem_state f(3,4) preprocess_caption_run_state [OF n])
  have n': "0 \<le> max_seq_length self" using n f(4) by simp
  have all: "getitems pre_img self items s
           = fold step (concat (replicate (length items)
                                  (all_captions (data self) @ all_captions (data self)))) s"
    by (rule getitems_state [OF f(3) n'])
  show ?thesis using f(1,2) r st all by (intro conjI)
qed

theorem preprocess_on_every_access_witness:
  "LoadFlickerData_init (example_fs ''a dog runs'' ''a dog run'') ''/d'' 5
       (effectful split_ws (\<lambda>caption n. Suc n)) (0::nat)
     = (Inr (example_object ''a dog runs''), 0)
   \<and> (0::int) \<le> 5
   \<and> vocab (example_object ''a dog runs'') = None
   \<and> all_captions (data (example_object ''a dog runs'')) = [''captions'', ''image_path'']
   \<and> snd (getitem (\<lambda>p. Inr ()) (example_object ''a dog runs'') (IdxStr ''img1'') 0) = 4
   \<and> getitems (\<lambda>p. Inr ()) (example_object ''a dog runs'')
        [IdxStr ''img1'', IdxInt 0, IdxStr ''img1''] 0 = 12"
proof -
  have n: "(0::int) \<le> 5" by simp
  note t = preprocess_on_every_access [OF init_example_eff n, of "\<lambda>p. Inr ()" _ 0
      "[IdxStr ''img1'', IdxInt 0, IdxStr ''img1'']"]
  have caps: "all_captions (data (example_object ''a dog runs'')) = [''captions'', ''image_path'']"
    by (simp add: example_object_def example_data_def all_captions_def)
  have v: "vocab (example_object ''a dog runs'') = None"
    by (rule t [THEN conjunct2, THEN conjunct1])
  have one: "snd (getitem (\<lambda>p. Inr ()) (example_object ''a dog runs'') (IdxStr ''img1'') 0) = 4"
    using t [of "IdxStr ''img1''", THEN conjunct2, THEN conjunct2, THEN conjunct2, THEN conjunct1]
    by (simp add: caps)
  have three: "getitems (\<lambda>p. Inr ()) (example_object ''a dog runs'')
        [IdxStr ''img1'', IdxInt 0, IdxStr ''img1''] 0 = 12"
    using t [of "IdxStr ''img1''", THEN conjunct2, THEN conjunct2, THEN conjunct2, THEN conjunct2]
    by (simp only: caps) simp
  show ?thesis using init_example_eff n v caps one three by (intro conjI)
qed

text \<open>
  Claim C8 as stated, one construction at initialization and none on access, fails: on
  the example corpus, with the tokenizer that counts its calls, the count is 0 after
  \<open>__init__\<close> and no vocabulary is stored, the first access raises it to 4 and a second
  access from 4 to 8.
\<close>

theorem no_caching_at_construction:
  "LoadFlickerData_init (example_fs ''a dog runs'' ''a dog run'') ''/d'' 5 count_calls 0
     = (Inr (example_object ''a dog runs''), 0)
   \<and> vocab (example_object ''a dog runs'') = None
   \<and> snd (getitem (\<lambda>p. Inr ()) (example_object ''a dog runs'') (IdxStr ''img1'') 0) = 4
   \<and> snd (getitem (\<lambda>p. Inr ()) (example_object ''a dog runs'') (IdxStr ''img1'') 4) = 8"
proof -
  have v: "vocab (example_object ''a dog runs'') = None" by (simp add: example_object_def)
  have a: "snd (getitem (\<lambda>p. Inr ()) (example_object ''a dog runs'') (IdxStr ''img1'') 0) = 4"
    by code_simp
  have b: "snd (getitem (\<lambda>p. Inr ()) (example_object ''a dog runs'') (IdxStr ''img1'') 4) = 8"
    by code_simp
  show ?thesis using init_example v a b by (intro conjI)
qed

section \<open>The claims about the decoder\<close>

text \<open>
  A layer returns a tuple of two components, so the first iteration of the loop of
  \<open>Decoder.forward\<close>, which unpacks three, ends in ValueError unless the layer itself
  raised.
\<close>

lemma layer_forward_pair:
  "TransformerDecoderLayer_forward tadd l tgt memory tm mm = Inr r \<Longrightarrow> \<exists>a b. r = [a, b]"
  by (auto simp: TransformerDecoderLayer_forward_def split: sum.splits prod.splits)

lemma decoder_loop_Cons:
  "decoder_loop tadd (l # ls) tgt memory tm mm =
     (case TransformerDecoderLayer_forward tadd l tgt memory tm mm of
        Inl e \<Rightarrow> Inl e | Inr r \<Rightarrow> Inl ValueError)"
proof (cases "TransformerDecoderLayer_forward tadd l tgt memory tm mm")
  case (Inl e)
  then show ?thesis by simp
next
  case (Inr r)
  obtain a b where "r = [a, b]" using layer_forward_pair [OF Inr] by auto
  with Inr show ?thesis by simp
qed

lemma make_layers_length:
  "make_layers mk_layer is = Inr ls \<Longrightarrow> length ls = length is"
  by (induction "is" arbitrary: ls) (auto split: sum.splits)

lemma example_layer_forward:
  "TransformerDecoderLayer_forward int_add example_layer 5 7 None None = Inr [40, 5]"
  by (simp add: TransformerDecoderLayer_forward_def example_layer_def int_add_def)

lemma init_one_layer:
  "Decoder_init (\<lambda>i. Inr example_layer) (Inr Inr) 1
     = Inr \<lparr> layers = [example_layer], output_projection = Inr \<rparr>"
  by (simp add: Decoder_init_def)

text \<open>
  Claim C2, on the code. For every \<open>num_layers\<close> of at least 1 the decoder holds that
  many layers, and \<open>forward\<close> raises: the exception of the first layer if it raises,
  ValueError otherwise. It never returns logits, where the specification's composition
  of the same layers does.
\<close>

theorem Decoder_forward_raises:
  assumes "1 \<le> num_layers" and "Decoder_init mk_layer mk_proj num_layers = Inr dec"
  shows "length (layers dec) = nat num_layers
       \<and> Decoder_forward tadd dec tgt memory tm mm =
           (case TransformerDecoderLayer_forward tadd (hd (layers dec)) tgt memory tm mm of
              Inl e \<Rightarrow> Inl e | Inr r \<Rightarrow> Inl ValueError)"
proof -
  obtain ls where ls: "make_layers mk_layer [0 ..< nat num_layers] = Inr ls" "layers dec = ls"
    using assms(2) by (auto simp: Decoder_init_def split: sum.splits)
  have len: "length ls = nat num_layers" using make_layers_length [OF ls(1)] by simp
  then obtain l rest where lr: "ls = l # rest" using assms(1) by (cases ls) auto
  have "Decoder_forward tadd dec tgt memory tm mm =
      (case TransformerDecoderLayer_forward tadd l tgt memory tm mm of
         Inl e \<Rightarrow> Inl e | Inr r \<Rightarrow> Inl ValueError)"
    unfolding Decoder_forward_def ls(2) lr decoder_loop_Cons by (simp split: sum.splits)
  then show ?thesis using len ls(2) lr by simp
qed

theorem Decoder_forward_raises_witness:
  "(1::int) \<le> 1
   \<and> Decoder_init (\<lambda>i. Inr example_layer) (Inr Inr) 1
       = Inr \<lparr> layers = [example_layer], output_projection = Inr \<rparr>
   \<and> TransformerDecoderLayer_forward int_add example_layer 5 7 None None = Inr [40, 5]
   \<and> Decoder_forward int_add \<lparr> layers = [example_layer], output_projection = Inr \<rparr> 5 7 None None
       = Inl ValueError
   \<and> spec_decoder_forward int_add \<lparr> layers = [example_layer], output_projection = Inr \<rparr> 5 7 None None
       = Inr 40"
proof -
  have h: "(1::int) \<le> 1" by simp
  have sp: "spec_decoder_forward int_add \<lparr> layers = [example_layer], output_projection = Inr \<rparr> 5 7 None None
       = Inr 40"
    by (simp add: spec_decoder_forward_def example_layer_forward)
  show ?thesis
    using Decoder_forward_raises [OF h init_one_layer, of int_add 5 7 None None]
      init_one_layer example_layer_forward sp by simp
qed

text \<open>
  Claim C7, as amended. For every \<open>num_layers\<close> below 1 the construction checks
  nothing about it: it builds no layer and fails only if the construction of the dropout
  or of the output projection does, otherwise returning a decoder with an empty list of
  layers; \<open>forward\<close> on such a decoder is the output projection of its target.
\<close>

theorem Decoder_accepts_no_layers:
  assumes "num_layers < 1"
  shows "Decoder_init mk_layer mk_proj num_layers =
           (case mk_proj of
              Inl e \<Rightarrow> Inl e
            | Inr proj \<Rightarrow> Inr \<lparr> layers = [], output_projection = proj \<rparr>)
       \<and> Decoder_forward tadd \<lparr> layers = [], output_projection = proj \<rparr> tgt memory tm mm = proj tgt"
  using assms by (simp add: Decoder_init_def Decoder_forward_def)

theorem Decoder_accepts_no_layers_witness:
  "(-2::int) < 1
   \<and> Decoder_init (\<lambda>i. Inr example_layer) (Inr Inr) (-2)
       = Inr \<lparr> layers = [], output_projection = Inr \<rparr>
   \<and> Decoder_forward int_add \<lparr> layers = [], output_projection = Inr \<rparr> 5 7 None None = Inr 5"
proof -
  have h: "(-2::int) < 1" by simp
  show ?thesis
    using Decoder_accepts_no_layers [OF h, where mk_layer = "\<lambda>i. Inr example_layer"
        and mk_proj = "Inr Inr" and tadd = int_add and proj = Inr
        and tgt = 5 and memory = 7 and tm = None and mm = None]
    by simp
qed

text \<open>
  Claim C7 as stated fails: with \<open>num_layers = 0\<close> the construction returns a decoder
  and not a ConfigurationError, and \<open>forward\<close> returns.
\<close>

theorem zero_layers_no_error:
  "Decoder_init (\<lambda>i. Inr example_layer) (Inr Inr) 0
     = Inr \<lparr> layers = [], output_projection = Inr \<rparr>
   \<and> Decoder_init (\<lambda>i. Inr example_layer) (Inr Inr) 0 \<noteq> Inl ConfigurationError
   \<and> Decoder_forward int_add \<lparr> layers = [], output_projection = Inr \<rparr> 5 7 None None = Inr 5"
  by (simp add: Decoder_init_def Decoder_forward_def)

section \<open>The claim about the positional encoding\<close>

text \<open>
  The buffer holds the signal of the specification: row \<open>p\<close> is the signal at
  position \<open>p\<close>.
\<close>

lemma pe_entry_spec:
  assumes "0 < d"
  shows "pe_entry d p f = spec_signal d p f"
proof -
  have "real p * div_term d i = real p / 10000 powr (real (2 * i) / real d)" for i
  proof -
    have "div_term d i = exp (- (real (2 * i) / real d * ln 10000))"
      by (simp add: div_term_def)
    also have "\<dots> = inverse (10000 powr (real (2 * i) / real d))"
      by (simp add: powr_def exp_minus)
    finally show ?thesis by (simp add: divide_inverse)
  qed
  then show ?thesis by (simp only: pe_entry_def spec_signal_def)
qed

lemma sin_one_pos: "0 < sin (1::real)"
proof -
  have "(1::real) < pi" using pi_ge_two by linarith
  then show ?thesis by (simp add: sin_gt_zero)
qed

text \<open>
  Claim C4, on the code. For an input of shape \<open>[positions, batch, width]\<close> with
  \<open>width = d_model\<close> and \<open>batch \<le> max_len\<close>, \<open>forward\<close> returns a tensor of the same
  shape whose entry at position \<open>s\<close>, batch index \<open>b\<close> and feature \<open>f\<close> is the entry of
  the input plus the signal of the specification taken at \<open>b\<close>, the index of the second
  dimension, and not at the position \<open>s\<close>. The witness is an input of two positions and
  one batch element, where the entry at position 1 gets the signal of position 0.
\<close>

theorem forward_adds_signal_of_second_index:
  assumes init: "PositionalEncoding_init d_model dr max_len = Inr self"
    and width: "size2 x = nat d_model" and fits: "size1 x \<le> nat max_len"
    and b: "b < size1 x" and f: "f < size2 x"
  shows "\<exists>y. PositionalEncoding_forward self x = Inr y
       \<and> size0 y = size0 x \<and> size1 y = size1 x \<and> size2 y = size2 x
       \<and> entry y s b f = entry x s b f + spec_signal (nat d_model) b f"
proof -
  have self: "pe_max_len self = nat max_len" "pe_d_model self = nat d_model"
    "pe self = pe_entry (nat d_model)" and pos: "0 < nat d_model"
    using init by (auto simp: PositionalEncoding_init_def split: if_splits)
  have m: "min (size1 x) (pe_max_len self) = size1 x" using fits self(1) by simp
  have ib: "bc_index (size1 x) b = b" and jf: "bc_index (size2 x) f = f"
    using b f by (auto simp: bc_index_def)
  have jd: "bc_index (nat d_model) f = f" using f width by (auto simp: bc_index_def)
  have fw: "PositionalEncoding_forward self x =
      Inr \<lparr> size0 = size0 x, size1 = size1 x, size2 = size2 x,
            entry = (\<lambda>s b f. entry x s (bc_index (size1 x) b) (bc_index (size2 x) f)
                       + pe self (bc_index (size1 x) b) (bc_index (nat d_model) f)) \<rparr>"
    by (simp add: PositionalEncoding_forward_def Let_def m self(2) width bc_ok_def bc_size_def)
  show ?thesis
    unfolding fw using pe_entry_spec [OF pos] by (simp add: ib jf jd self(3) width)
qed

theorem forward_adds_signal_of_second_index_witness:
  "PositionalEncoding_init 2 (1/10) 5000 =
     Inr \<lparr> pe_max_len = 5000, pe_d_model = 2, pe = pe_entry 2 \<rparr>
   \<and> size2 (zeros 2 1 2) = nat 2 \<and> size1 (zeros 2 1 2) \<le> nat 5000
   \<and> (0::nat) < size1 (zeros 2 1 2) \<and> (0::nat) < size2 (zeros 2 1 2)
   \<and> (\<exists>y. PositionalEncoding_forward \<lparr> pe_max_len = 5000, pe_d_model = 2, pe = pe_entry 2 \<rparr> (zeros 2 1 2) = Inr y
         \<and> entry y 1 0 0 = 0 \<and> spec_signal 2 1 0 = sin 1 \<and> entry y 1 0 0 \<noteq> spec_signal 2 1 0)"
proof -
  have init: "PositionalEncoding_init 2 (1/10) 5000 =
     Inr \<lparr> pe_max_len = 5000, pe_d_model = 2, pe = pe_entry 2 \<rparr>"
    by (simp add: PositionalEncoding_init_def)
  have w: "size2 (zeros 2 1 2) = nat 2" and fit: "size1 (zeros 2 1 2) \<le> nat 5000"
    and b: "(0::nat) < size1 (zeros 2 1 2)" and f: "(0::nat) < size2 (zeros 2 1 2)"
    by (simp_all add: zeros_def)
  have s0: "spec_signal 2 0 0 = 0" and s1: "spec_signal 2 1 0 = sin 1"
    by (simp_all add: spec_signal_def)
  obtain y where y: "PositionalEncoding_forward \<lparr> pe_max_len = 5000, pe_d_model = 2, pe = pe_entry 2 \<rparr> (zeros 2 1 2) = Inr y"
    "entry y 1 0 0 = entry (zeros 2 1 2) 1 0 0 + spec_signal (nat 2) 0 0"
    using forward_adds_signal_of_second_index [OF init w fit b f, of 1] by auto
  have e0: "entry y 1 0 0 = 0" using y(2) s0 by (simp add: zeros_def)
  have "entry y 1 0 0 \<noteq> spec_signal 2 1 0" using e0 s1 sin_one_pos by simp
  with init w fit b f y(1) e0 s1 show ?thesis by blast
qed

end
